theory Spec2Isabelle
  imports Main "HOL-Library.Sublist"
begin

section \<open>The file protocol handler of the Electron main process\<close>

text \<open>
  A shallow embedding of \<^verbatim>\<open>src/lib/vscode/src/vs/code/electron-main/protocol.ts\<close>:
  the class \<^verbatim>\<open>FileProtocolHandler\<close> with its constructor, \<^verbatim>\<open>addValidRoot\<close>,
  \<^verbatim>\<open>injectWindowsMainService\<close>, \<^verbatim>\<open>handleFileRequest\<close> and \<^verbatim>\<open>handleResourceRequest\<close>.
  The class is a record of its fields; every method takes the record and returns the
  updated one. The modules the file imports (URIs, the ternary search tree, disposables,
  events, \<^verbatim>\<open>extname\<close>) are not part of the sources at hand; what the handler needs of
  them is modelled from the specification, each such definition saying so.
\<close>

subsection \<open>URIs, paths and strings\<close>

text \<open>A URI, reduced to the two components the handler reads.\<close>

record uri =
  scheme :: string
  path :: string

text \<open>
  Modelled from the spec: the scheme names of \<^verbatim>\<open>Schemas\<close> (vs/base/common/network), the
  native-file scheme and the app-resource scheme.
\<close>

definition Schemas_file :: string where
  "Schemas_file = ''file''"

definition Schemas_vscodeFileResource :: string where
  "Schemas_vscodeFileResource = ''vscode-file''"

text \<open>
  Modelled from the spec: \<^verbatim>\<open>URI.file\<close> and \<^verbatim>\<open>uri.fsPath\<close> (vs/base/common/uri). A root
  given as a filesystem path becomes a native-file URI with that path, and the path
  served for a URI is its path component.
\<close>

definition URI_file :: "string \<Rightarrow> uri" where
  "URI_file p = \<lparr>scheme = Schemas_file, path = p\<rparr>"

definition fsPath :: "uri \<Rightarrow> string" where
  "fsPath u = path u"

text \<open>
  Case folding of one character and of a string: the letters A to Z are mapped to
  a to z, every other character is kept.
\<close>

definition toLowerCase_char :: "char \<Rightarrow> char" where
  "toLowerCase_char c =
     (case map_of (zip ''ABCDEFGHIJKLMNOPQRSTUVWXYZ'' ''abcdefghijklmnopqrstuvwxyz'') c of
        Some d \<Rightarrow> d
      | None \<Rightarrow> c)"

definition toLowerCase :: "string \<Rightarrow> string" where
  "toLowerCase s = map toLowerCase_char s"

text \<open>
  The segments of a path: the maximal runs of characters between separators
  \<^verbatim>\<open>/\<close>. The first argument of \<open>segments_from\<close> is the segment read so far.
\<close>

fun segments_from :: "string \<Rightarrow> string \<Rightarrow> string list" where
  "segments_from cur [] = (if cur = [] then [] else [cur])"
| "segments_from cur (c # cs) =
     (if c = CHR ''/'' then
        (if cur = [] then segments_from [] cs else cur # segments_from [] cs)
      else segments_from (cur @ [c]) cs)"

definition pathSegments :: "string \<Rightarrow> string list" where
  "pathSegments p = segments_from [] p"

text \<open>
  Modelled from the spec: which paths the root store rejects outright (section 4.1,
  ``an empty or malformed path never matches''). A path is well formed when it is
  absolute, that is, it starts with the separator; it is empty when it has no segment.
\<close>

definition wellFormedPath :: "string \<Rightarrow> bool" where
  "wellFormedPath p = (case p of [] \<Rightarrow> False | c # cs \<Rightarrow> c = CHR ''/'')"

definition emptyPath :: "string \<Rightarrow> bool" where
  "emptyPath p = (pathSegments p = [])"

text \<open>
  Modelled from the spec: \<^verbatim>\<open>extname\<close> (vs/base/common/resources), section 4.2: ``the
  lowercase, dot-inclusive extension extracted from the request path''. The extension
  is read from the last path segment, from its last dot on.
\<close>

definition basename :: "string \<Rightarrow> string" where
  "basename p = rev (takeWhile (\<lambda>c. c \<noteq> CHR ''/'') (rev p))"

definition path_extname :: "string \<Rightarrow> string" where
  "path_extname p =
     (let b = basename p in
      if CHR ''.'' \<in> set b then CHR ''.'' # rev (takeWhile (\<lambda>c. c \<noteq> CHR ''.'') (rev b))
      else [])"

definition extname :: "uri \<Rightarrow> string" where
  "extname u = toLowerCase (path_extname (path u))"

subsection \<open>The root store\<close>

text \<open>
  Modelled from the spec: \<^verbatim>\<open>TernarySearchTree.forUris\<close> (vs/base/common/map), the Root
  Authorization Store of section 4.1. The store maps a normalized root, its list of
  path segments, to the boolean marker; the segments are case-folded when the store
  ignores path casing. \<open>set_tst\<close>, \<open>get_tst\<close> and \<open>delete_tst\<close> are the tree's
  \<^verbatim>\<open>set\<close>, \<^verbatim>\<open>get\<close> and \<^verbatim>\<open>delete\<close>; \<open>findSubstr\<close> walks down the segments of the looked-up
  path and answers whether a stored root with a true marker was met on the way.
\<close>

record TernarySearchTree =
  ignorePathCasing :: bool
  entries :: "string list \<rightharpoonup> bool"

definition forUris :: "bool \<Rightarrow> TernarySearchTree" where
  "forUris ignoreCase = \<lparr>ignorePathCasing = ignoreCase, entries = Map.empty\<rparr>"

definition uriKey :: "TernarySearchTree \<Rightarrow> uri \<Rightarrow> string list" where
  "uriKey t u =
     (if ignorePathCasing t then map toLowerCase (pathSegments (path u))
      else pathSegments (path u))"

definition set_tst :: "uri \<Rightarrow> bool \<Rightarrow> TernarySearchTree \<Rightarrow> TernarySearchTree" where
  "set_tst u v t = t\<lparr>entries := (entries t)(uriKey t u \<mapsto> v)\<rparr>"

definition get_tst :: "TernarySearchTree \<Rightarrow> uri \<Rightarrow> bool option" where
  "get_tst t u = entries t (uriKey t u)"

definition delete_tst :: "uri \<Rightarrow> TernarySearchTree \<Rightarrow> TernarySearchTree" where
  "delete_tst u t = t\<lparr>entries := (entries t)(uriKey t u := None)\<rparr>"

definition findSubstr :: "TernarySearchTree \<Rightarrow> uri \<Rightarrow> bool" where
  "findSubstr t u =
     (wellFormedPath (path u) \<and> \<not> emptyPath (path u) \<and>
      (\<exists>k \<in> set (prefixes (uriKey t u)). entries t k = Some True))"

subsection \<open>Disposables\<close>

text \<open>
  Modelled from the spec: \<^verbatim>\<open>toDisposable\<close> and \<^verbatim>\<open>Disposable.None\<close>
  (vs/base/common/lifecycle), the revocation handle of section 4.3: ``removes the
  corresponding root from the store, exactly once, safe to call multiple times''.
  The only function the handler wraps is \<^verbatim>\<open>() => this.validRoots.delete(root)\<close>, so a
  handle is the root it deletes and the flag that it has run; disposing returns the
  handle in its new state.
\<close>

datatype disposable = Disposable_None | ToDisposable uri bool

fun dispose :: "disposable \<Rightarrow> TernarySearchTree \<Rightarrow> disposable \<times> TernarySearchTree" where
  "dispose Disposable_None t = (Disposable_None, t)"
| "dispose (ToDisposable root isDisposed) t =
     (if isDisposed then (ToDisposable root True, t)
      else (ToDisposable root True, delete_tst root t))"

text \<open>
  Modelled from the spec: \<^verbatim>\<open>DisposableStore.dispose\<close>, which disposes every handle
  added to the store, in the order of their addition.
\<close>

fun dispose_all :: "disposable list \<Rightarrow> TernarySearchTree \<Rightarrow> TernarySearchTree" where
  "dispose_all [] t = t"
| "dispose_all (d # ds) t = dispose_all ds (snd (dispose d t))"

subsection \<open>The handler\<close>

text \<open>
  What the file takes from its surroundings: the two platform constants
  \<^verbatim>\<open>isLinux\<close> and \<^verbatim>\<open>isPreferringBrowserCodeLoad\<close>, the URL parser \<^verbatim>\<open>URI.parse\<close> and
  the mapping \<^verbatim>\<open>FileAccess.asFileUri\<close> of an app-resource URI to its native-file URI.
  The theorems hold for every choice of them.
\<close>

record externals =
  isLinux :: bool
  isPreferringBrowserCodeLoad :: bool
  URI_parse :: "string \<Rightarrow> uri"
  asFileUri :: "uri \<Rightarrow> uri"

record INativeEnvironmentService =
  appRoot :: string
  extensionsPath :: string
  globalStorageHome :: uri
  workspaceStorageHome :: uri

record ProtocolRequest =
  url :: string

text \<open>
  What a handler passes to its callback: \<^verbatim>\<open>{ path: ... }\<close> is \<open>Serve\<close>,
  \<^verbatim>\<open>{ error: ... }\<close> is \<open>Deny\<close>.
\<close>

datatype decision = Serve string | Deny int

text \<open>
  The fields of the class. \<open>logService\<close> holds the messages passed to
  \<^verbatim>\<open>logService.error\<close>, oldest first. \<open>windowDisposables\<close> holds, for every window
  that signalled readiness with a development or test path, the window's id and the
  handles of the \<^verbatim>\<open>DisposableStore\<close> that \<^verbatim>\<open>injectWindowsMainService\<close> subscribed to the
  window's close and destroy events.
\<close>

record FileProtocolHandler =
  validRoots :: TernarySearchTree
  validExtensions :: "string set"
  logService :: "string list"
  windowDisposables :: "(nat \<times> disposable list) list"

definition constructor_FileProtocolHandler ::
    "externals \<Rightarrow> INativeEnvironmentService \<Rightarrow> FileProtocolHandler" where
  "constructor_FileProtocolHandler ext environmentService =
     \<lparr>validRoots =
        set_tst (workspaceStorageHome environmentService) True
          (set_tst (globalStorageHome environmentService) True
            (set_tst (URI_file (extensionsPath environmentService)) True
              (set_tst (URI_file (appRoot environmentService)) True
                (forUris (\<not> isLinux ext))))),
      validExtensions = {''.png'', ''.jpg'', ''.jpeg'', ''.gif'', ''.bmp''},
      logService = [],
      windowDisposables = []\<rparr>"

definition addValidRoot ::
    "uri \<Rightarrow> FileProtocolHandler \<Rightarrow> disposable \<times> FileProtocolHandler" where
  "addValidRoot root this =
     (if get_tst (validRoots this) root \<noteq> Some True then
        (ToDisposable root False,
         this\<lparr>validRoots := set_tst root True (validRoots this)\<rparr>)
      else (Disposable_None, this))"

definition logService_error :: "string \<Rightarrow> FileProtocolHandler \<Rightarrow> FileProtocolHandler" where
  "logService_error message this = this\<lparr>logService := logService this @ [message]\<rparr>"

definition refusedMessage :: "string \<Rightarrow> uri \<Rightarrow> ProtocolRequest \<Rightarrow> string" where
  "refusedMessage schemeName fileUri request =
     ''Refused to load resource '' @ fsPath fileUri @ '' from '' @ schemeName @
     '': protocol (original URL: '' @ url request @ '')''"

text \<open>
  The handlers return the list of the calls of \<^verbatim>\<open>callback\<close> they make, in order, and
  the handler object after the request.
\<close>

definition handleFileRequest ::
    "externals \<Rightarrow> ProtocolRequest \<Rightarrow> FileProtocolHandler \<Rightarrow> decision list \<times> FileProtocolHandler" where
  "handleFileRequest ext request this =
     (let fileUri = URI_parse ext (url request) in
      if \<not> isPreferringBrowserCodeLoad ext then
        if findSubstr (validRoots this) fileUri then ([Serve (fsPath fileUri)], this)
        else if extname fileUri \<in> validExtensions this then ([Serve (fsPath fileUri)], this)
        else
          ([Deny (- 3)],
           logService_error
             (Schemas_file @ '': '' @ refusedMessage Schemas_file fileUri request) this)
      else
        ([Deny (- 3)], logService_error (refusedMessage Schemas_file fileUri request) this))"

definition handleResourceRequest ::
    "externals \<Rightarrow> ProtocolRequest \<Rightarrow> FileProtocolHandler \<Rightarrow> decision list \<times> FileProtocolHandler" where
  "handleResourceRequest ext request this =
     (let u = URI_parse ext (url request);
          fileUri = asFileUri ext u in
      if findSubstr (validRoots this) fileUri then ([Serve (fsPath fileUri)], this)
      else if extname fileUri \<in> validExtensions this then ([Serve (fsPath fileUri)], this)
      else
        ([Deny (- 3)],
         logService_error
           (Schemas_vscodeFileResource @ '': '' @
            refusedMessage Schemas_vscodeFileResource fileUri request) this))"

subsection \<open>The handlers with helpers that may throw\<close>






subsection \<open>Windows and their grants\<close>

record IWindowConfiguration =
  extensionDevelopmentPath :: "string list option"
  extensionTestsPath :: "string option"

record ICodeWindow =
  windowId :: nat
  config :: "IWindowConfiguration option"

text \<open>
  The roots a ready window is granted, in the order of the calls of
  \<^verbatim>\<open>addValidRoot\<close>: the development paths, then the tests path. An undefined or empty
  tests path is falsy and grants nothing.
\<close>

definition reportedRoots :: "IWindowConfiguration \<Rightarrow> uri list" where
  "reportedRoots cfg =
     (case extensionDevelopmentPath cfg of None \<Rightarrow> [] | Some ps \<Rightarrow> map URI_file ps) @
     (case extensionTestsPath cfg of
        None \<Rightarrow> []
      | Some p \<Rightarrow> if p = [] then [] else [URI_file p])"

fun addValidRoots ::
    "uri list \<Rightarrow> FileProtocolHandler \<Rightarrow> disposable list \<times> FileProtocolHandler" where
  "addValidRoots [] this = ([], this)"
| "addValidRoots (root # roots) this =
     (let (d, this1) = addValidRoot root this;
          (ds, this2) = addValidRoots roots this1
      in (d # ds, this2))"

text \<open>
  The listener of \<^verbatim>\<open>onDidSignalReadyWindow\<close>. A defined list of development paths is
  truthy also when it is empty, so the window then gets a store with no grant in it.
\<close>

definition onDidSignalReadyWindow ::
    "ICodeWindow \<Rightarrow> FileProtocolHandler \<Rightarrow> FileProtocolHandler" where
  "onDidSignalReadyWindow window this =
     (case config window of
        None \<Rightarrow> this
      | Some cfg \<Rightarrow>
          if extensionDevelopmentPath cfg \<noteq> None \<or>
             (extensionTestsPath cfg \<noteq> None \<and> extensionTestsPath cfg \<noteq> Some [])
          then
            (let (ds, this1) = addValidRoots (reportedRoots cfg) this
             in this1\<lparr>windowDisposables :=
                       windowDisposables this1 @ [(windowId window, ds)]\<rparr>)
          else this)"

text \<open>
  The listener \<^verbatim>\<open>() => disposables.dispose()\<close> of
  \<^verbatim>\<open>Event.any(window.onDidClose, window.onDidDestroy)\<close>. Modelled from the spec:
  \<^verbatim>\<open>Event.any\<close> (vs/base/common/event) calls the listener when either event fires,
  and a disposed store has ended its subscription (section 4.3: ``that consumer's
  close-or-destroy signal (whichever fires first)''). The signal therefore disposes the
  stores of the window, which deletes their roots, and drops them.
\<close>

definition onDidCloseOrDestroy :: "nat \<Rightarrow> FileProtocolHandler \<Rightarrow> FileProtocolHandler" where
  "onDidCloseOrDestroy w this =
     this\<lparr>validRoots :=
            dispose_all (concat (map snd (filter (\<lambda>s. fst s = w) (windowDisposables this))))
              (validRoots this),
          windowDisposables := filter (\<lambda>s. fst s \<noteq> w) (windowDisposables this)\<rparr>"

datatype event =
    SignalReadyWindow ICodeWindow
  | WindowClose nat
  | WindowDestroy nat
  | FileRequest ProtocolRequest
  | ResourceRequest ProtocolRequest

fun step :: "externals \<Rightarrow> event \<Rightarrow> FileProtocolHandler \<Rightarrow> FileProtocolHandler" where
  "step ext (SignalReadyWindow window) this = onDidSignalReadyWindow window this"
| "step ext (WindowClose w) this = onDidCloseOrDestroy w this"
| "step ext (WindowDestroy w) this = onDidCloseOrDestroy w this"
| "step ext (FileRequest request) this = snd (handleFileRequest ext request this)"
| "step ext (ResourceRequest request) this = snd (handleResourceRequest ext request this)"

fun run :: "externals \<Rightarrow> event list \<Rightarrow> FileProtocolHandler \<Rightarrow> FileProtocolHandler" where
  "run ext [] this = this"
| "run ext (e # es) this = run ext es (step ext e this)"

subsection \<open>The grants in the store\<close>

text \<open>
  The roots that the handles of a store still delete: a handle that has run, and the
  no-op handle, delete nothing.
\<close>

fun liveRoots :: "disposable list \<Rightarrow> uri list" where
  "liveRoots [] = []"
| "liveRoots (Disposable_None # ds) = liveRoots ds"
| "liveRoots (ToDisposable root isDisposed # ds) =
     (if isDisposed then liveRoots ds else root # liveRoots ds)"

text \<open>
  The normalized roots behind the live handles of a list of window stores, of all
  stores of the handler, and of the stores of one window.
\<close>

definition storeKeys ::
    "TernarySearchTree \<Rightarrow> (nat \<times> disposable list) list \<Rightarrow> string list list" where
  "storeKeys t subs = map (uriKey t) (liveRoots (concat (map snd subs)))"

definition grantedKeys :: "FileProtocolHandler \<Rightarrow> string list list" where
  "grantedKeys this = storeKeys (validRoots this) (windowDisposables this)"

definition windowKeys :: "nat \<Rightarrow> FileProtocolHandler \<Rightarrow> string list list" where
  "windowKeys w this =
     storeKeys (validRoots this) (filter (\<lambda>s. fst s = w) (windowDisposables this))"

text \<open>The four roots the constructor inserts, normalized as the store does.\<close>

definition bootstrapKeys :: "externals \<Rightarrow> INativeEnvironmentService \<Rightarrow> string list list" where
  "bootstrapKeys ext environmentService =
     map (uriKey (forUris (\<not> isLinux ext)))
       [URI_file (appRoot environmentService), URI_file (extensionsPath environmentService),
        globalStorageHome environmentService, workspaceStorageHome environmentService]"

text \<open>
  The roots a ready window reports (none without a configuration), and the normalized
  roots that its grants add to the store, those of its live handles.
\<close>

definition windowRoots :: "ICodeWindow \<Rightarrow> uri list" where
  "windowRoots window = (case config window of None \<Rightarrow> [] | Some cfg \<Rightarrow> reportedRoots cfg)"

definition newKeys :: "ICodeWindow \<Rightarrow> FileProtocolHandler \<Rightarrow> string list list" where
  "newKeys window this =
     map (uriKey (validRoots this)) (liveRoots (fst (addValidRoots (windowRoots window) this)))"

text \<open>
  The invariant of the grants: the bootstrap roots are stored, no two live handles
  delete the same stored root, and every live handle deletes a stored root that is not a
  bootstrap root.
\<close>

definition grantsConsistent :: "string list set \<Rightarrow> FileProtocolHandler \<Rightarrow> bool" where
  "grantsConsistent boot this \<longleftrightarrow>
     (\<forall>k \<in> boot. entries (validRoots this) k = Some True) \<and>
     distinct (grantedKeys this) \<and>
     (\<forall>k \<in> set (grantedKeys this). entries (validRoots this) k = Some True \<and> k \<notin> boot)"

text \<open>The events that end the life of window \<open>w\<close>.\<close>

definition terminalFor :: "nat \<Rightarrow> event \<Rightarrow> bool" where
  "terminalFor w e = (e = WindowClose w \<or> e = WindowDestroy w)"

subsection \<open>The specification's side\<close>

text \<open>
  The decision procedure as section 4.4 of the specification words it, as a predicate on
  the result of a handler: the covering root is asked first, the allow-list second, and
  a denial is the code \<open>- 3\<close> together with exactly one more message in the log.
\<close>

definition decidedAsSpecified ::
    "uri \<Rightarrow> FileProtocolHandler \<Rightarrow> decision list \<times> FileProtocolHandler \<Rightarrow> bool" where
  "decidedAsSpecified fileUri this result =
     (if findSubstr (validRoots this) fileUri then result = ([Serve (fsPath fileUri)], this)
      else if extname fileUri \<in> validExtensions this then result = ([Serve (fsPath fileUri)], this)
      else fst result = [Deny (- 3)] \<and>
           snd result = logService_error (last (logService (snd result))) this)"

text \<open>The extensions of the allow-list, as section 3 of the specification lists them.\<close>

definition allowedExtensions :: "string set" where
  "allowedExtensions = {''.png'', ''.jpg'', ''.jpeg'', ''.gif'', ''.bmp''}"

subsection \<open>Concrete inputs\<close>

text \<open>
  A Linux host that does not prefer browser code loading, with a parser that reads the
  scheme up to the colon and the path from the first slash after the authority, and
  the same host with browser code loading preferred.
\<close>

definition example_externals :: externals where
  "example_externals =
     \<lparr>isLinux = True, isPreferringBrowserCodeLoad = False,
      URI_parse = (\<lambda>s. \<lparr>scheme = takeWhile (\<lambda>c. c \<noteq> CHR '':'') s,
                         path = dropWhile (\<lambda>c. c \<noteq> CHR ''/'')
                                  (drop 3 (dropWhile (\<lambda>c. c \<noteq> CHR '':'') s))\<rparr>),
      asFileUri = (\<lambda>u. u\<lparr>scheme := Schemas_file\<rparr>)\<rparr>"

definition example_blocking :: externals where
  "example_blocking = example_externals\<lparr>isPreferringBrowserCodeLoad := True\<rparr>"

definition example_environment :: INativeEnvironmentService where
  "example_environment =
     \<lparr>appRoot = ''/app'', extensionsPath = ''/ext'',
      globalStorageHome = URI_file ''/data/global'',
      workspaceStorageHome = URI_file ''/data/workspace''\<rparr>"

definition example_handler :: FileProtocolHandler where
  "example_handler = constructor_FileProtocolHandler example_externals example_environment"

text \<open>A window with one development path, and the handler after window 1 got ready.\<close>

definition example_window :: "nat \<Rightarrow> string \<Rightarrow> ICodeWindow" where
  "example_window w p =
     \<lparr>windowId = w,
      config = Some \<lparr>extensionDevelopmentPath = Some [p], extensionTestsPath = None\<rparr>\<rparr>"

definition example_granted :: FileProtocolHandler where
  "example_granted =
     run example_externals [SignalReadyWindow (example_window 1 ''/dev/ext'')] example_handler"

text \<open>A case-sensitive store that holds the one root \<^verbatim>\<open>/a/b\<close>.\<close>

definition example_store :: TernarySearchTree where
  "example_store = set_tst (URI_file ''/a/b'') True (forUris False)"

text \<open>
  Two windows with different development paths; two windows with the same development
  path; two windows with the same path, the first of them destroyed; and a sequence of
  events in which window 1 signals neither close nor destroy.
\<close>

definition example_two :: FileProtocolHandler where
  "example_two =
     run example_externals
       [SignalReadyWindow (example_window 1 ''/dev/ext''),
        SignalReadyWindow (example_window 2 ''/dev/other'')] example_handler"

definition example_shared :: FileProtocolHandler where
  "example_shared =
     run example_externals
       [SignalReadyWindow (example_window 1 ''/dev/ext''),
        SignalReadyWindow (example_window 2 ''/dev/ext'')] example_handler"

definition example_regranted :: FileProtocolHandler where
  "example_regranted =
     run example_externals
       [SignalReadyWindow (example_window 3 ''/work/ext''),
        SignalReadyWindow (example_window 4 ''/work/ext''),
        WindowDestroy 3] example_handler"

definition example_events :: "event list" where
  "example_events =
     [FileRequest \<lparr>url = ''file:///dev/ext/main.js''\<rparr>,
      SignalReadyWindow (example_window 2 ''/dev/other''),
      WindowClose 2]"



section \<open>Properties\<close>

lemmas example_defs =
  example_handler_def constructor_FileProtocolHandler_def example_externals_def
  example_environment_def URI_file_def set_tst_def forUris_def uriKey_def pathSegments_def
  wellFormedPath_def emptyPath_def findSubstr_def Schemas_file_def Schemas_vscodeFileResource_def
  fsPath_def extname_def path_extname_def basename_def toLowerCase_def toLowerCase_char_def
  logService_error_def refusedMessage_def handleFileRequest_def handleResourceRequest_def Let_def

subsection \<open>The decision procedure\<close>

text \<open>
  C1. A native-file request received while browser code loading is not preferred, and
  every app-resource request whatever the flag (its URI first mapped to the native-file
  URI), is decided by the procedure of the specification: a covering root serves the
  path; otherwise an allowed extension serves the path; otherwise one error is logged
  and the request is denied with ABORTED. The root check comes before the extension check.
\<close>

theorem handlers_follow_decision_procedure:
  "(\<not> isPreferringBrowserCodeLoad ext \<longrightarrow>
      decidedAsSpecified (URI_parse ext (url request)) this (handleFileRequest ext request this)) \<and>
   decidedAsSpecified (asFileUri ext (URI_parse ext (url request))) this
     (handleResourceRequest ext request this)"
  by (simp add: decidedAsSpecified_def handleFileRequest_def handleResourceRequest_def
      logService_error_def Let_def)

theorem handlers_follow_decision_procedure_witness:
  "\<not> isPreferringBrowserCodeLoad example_externals \<and>
   decidedAsSpecified (URI_parse example_externals ''file:///etc/passwd'') example_handler
     (handleFileRequest example_externals \<lparr>url = ''file:///etc/passwd''\<rparr> example_handler) \<and>
   handleFileRequest example_externals \<lparr>url = ''file:///app/index.html''\<rparr> example_handler =
     ([Serve ''/app/index.html''], example_handler) \<and>
   handleResourceRequest example_externals \<lparr>url = ''vscode-file://vscode-app/etc/logo.png''\<rparr>
       example_handler =
     ([Serve ''/etc/logo.png''], example_handler) \<and>
   fst (handleFileRequest example_externals \<lparr>url = ''file:///etc/passwd''\<rparr> example_handler) =
     [Deny (- 3)] \<and>
   length (logService (snd (handleFileRequest example_externals \<lparr>url = ''file:///etc/passwd''\<rparr>
     example_handler))) = 1"
  using handlers_follow_decision_procedure
    [of example_externals "\<lparr>url = ''file:///etc/passwd''\<rparr>" example_handler]
    handlers_follow_decision_procedure
    [of example_externals "\<lparr>url = ''file:///app/index.html''\<rparr>" example_handler]
    handlers_follow_decision_procedure
    [of example_externals "\<lparr>url = ''vscode-file://vscode-app/etc/logo.png''\<rparr>" example_handler]
  by (simp add: decidedAsSpecified_def example_defs)

text \<open>
  C3. When browser code loading is preferred, the native-file handler denies every
  request with ABORTED. The result is the denial and one logged message whatever the
  root store and the allow-list hold, so neither is consulted.
\<close>

theorem file_requests_denied_when_preferring_browser_code_load:
  "isPreferringBrowserCodeLoad ext \<Longrightarrow>
     handleFileRequest ext request this =
       ([Deny (- 3)],
        logService_error (refusedMessage Schemas_file (URI_parse ext (url request)) request) this)"
  by (simp add: handleFileRequest_def)

theorem file_requests_denied_when_preferring_browser_code_load_witness:
  "isPreferringBrowserCodeLoad example_blocking \<and>
   findSubstr (validRoots example_handler)
     (URI_parse example_blocking ''file:///app/index.html'') \<and>
   fst (handleFileRequest example_blocking \<lparr>url = ''file:///app/index.html''\<rparr> example_handler) =
     [Deny (- 3)] \<and>
   extname (URI_parse example_blocking ''file:///etc/logo.png'') \<in>
     validExtensions example_handler \<and>
   fst (handleFileRequest example_blocking \<lparr>url = ''file:///etc/logo.png''\<rparr> example_handler) =
     [Deny (- 3)]"
  using file_requests_denied_when_preferring_browser_code_load
    [of example_blocking "\<lparr>url = ''file:///app/index.html''\<rparr>" example_handler]
    file_requests_denied_when_preferring_browser_code_load
    [of example_blocking "\<lparr>url = ''file:///etc/logo.png''\<rparr>" example_handler]
  by (simp add: example_blocking_def example_defs)







subsection \<open>The extension allow-list\<close>

lemma addValidRoot_validExtensions:
  "validExtensions (snd (addValidRoot root this)) = validExtensions this"
  by (simp add: addValidRoot_def)

lemma addValidRoots_validExtensions:
  "validExtensions (snd (addValidRoots roots this)) = validExtensions this"
proof (induction roots arbitrary: this)
  case Nil
  show ?case by simp
next
  case (Cons root roots)
  have "validExtensions (snd (addValidRoots roots (snd (addValidRoot root this)))) =
        validExtensions this"
    by (simp add: Cons.IH addValidRoot_validExtensions)
  then show ?case by (simp add: split_beta Let_def)
qed

lemma step_validExtensions: "validExtensions (step ext e this) = validExtensions this"
proof (cases e)
  case (SignalReadyWindow window)
  then show ?thesis
    using addValidRoots_validExtensions
    by (simp add: onDidSignalReadyWindow_def split_beta Let_def split: option.splits)
next
  case (WindowClose w)
  then show ?thesis by (simp add: onDidCloseOrDestroy_def)
next
  case (WindowDestroy w)
  then show ?thesis by (simp add: onDidCloseOrDestroy_def)
next
  case (FileRequest request)
  then show ?thesis by (simp add: handleFileRequest_def logService_error_def Let_def)
next
  case (ResourceRequest request)
  then show ?thesis by (simp add: handleResourceRequest_def logService_error_def Let_def)
qed

lemma run_validExtensions: "validExtensions (run ext es this) = validExtensions this"
  by (induction es arbitrary: this) (simp_all add: step_validExtensions)

lemma example_parse:
  "URI_parse example_externals ''file:///unauthorized/dir/IMAGE.PNG'' =
      \<lparr>scheme = ''file'', path = ''/unauthorized/dir/IMAGE.PNG''\<rparr>"
  by (simp add: example_externals_def)

lemma example_granted_roots:
  "validRoots example_granted =
     \<lparr>ignorePathCasing = False,
      entries = [[''app''] \<mapsto> True, [''ext''] \<mapsto> True, [''data'', ''global''] \<mapsto> True,
                 [''data'', ''workspace''] \<mapsto> True, [''dev'', ''ext''] \<mapsto> True]\<rparr>"
  by (simp add: example_granted_def example_handler_def constructor_FileProtocolHandler_def
      example_externals_def example_environment_def example_window_def onDidSignalReadyWindow_def
      reportedRoots_def addValidRoot_def get_tst_def set_tst_def forUris_def uriKey_def
      pathSegments_def URI_file_def Schemas_file_def)

text \<open>
  C6. In every state the handler reaches from its construction the allow-list is the
  fixed set of five extensions, and a request that no root covers and whose extension,
  lowercased, is in that set is served its path, by either handler (the native-file
  handler when browser code loading is not preferred).
\<close>

theorem allowed_extension_served:
  assumes "this = run ext es (constructor_FileProtocolHandler ext environmentService)"
  shows "validExtensions this = allowedExtensions \<and>
    (\<not> isPreferringBrowserCodeLoad ext \<and>
     \<not> findSubstr (validRoots this) (URI_parse ext (url request)) \<and>
     toLowerCase (path_extname (path (URI_parse ext (url request)))) \<in> allowedExtensions \<longrightarrow>
       handleFileRequest ext request this = ([Serve (fsPath (URI_parse ext (url request)))], this)) \<and>
    (\<not> findSubstr (validRoots this) (asFileUri ext (URI_parse ext (url request))) \<and>
     toLowerCase (path_extname (path (asFileUri ext (URI_parse ext (url request))))) \<in>
       allowedExtensions \<longrightarrow>
       handleResourceRequest ext request this =
         ([Serve (fsPath (asFileUri ext (URI_parse ext (url request))))], this))"
proof -
  have ve: "validExtensions this = allowedExtensions"
    unfolding assms run_validExtensions
    by (simp add: constructor_FileProtocolHandler_def allowedExtensions_def)
  have f: "\<not> isPreferringBrowserCodeLoad ext \<and>
     \<not> findSubstr (validRoots this) (URI_parse ext (url request)) \<and>
     toLowerCase (path_extname (path (URI_parse ext (url request)))) \<in> allowedExtensions \<longrightarrow>
       handleFileRequest ext request this = ([Serve (fsPath (URI_parse ext (url request)))], this)"
    by (simp add: handleFileRequest_def Let_def extname_def ve)
  have r: "\<not> findSubstr (validRoots this) (asFileUri ext (URI_parse ext (url request))) \<and>
     toLowerCase (path_extname (path (asFileUri ext (URI_parse ext (url request))))) \<in>
       allowedExtensions \<longrightarrow>
       handleResourceRequest ext request this =
         ([Serve (fsPath (asFileUri ext (URI_parse ext (url request))))], this)"
    by (simp add: handleResourceRequest_def Let_def extname_def ve)
  from ve f r show ?thesis by blast
qed

theorem allowed_extension_served_witness:
  "\<not> isPreferringBrowserCodeLoad example_externals \<and>
   \<not> findSubstr (validRoots example_granted)
       (URI_parse example_externals ''file:///unauthorized/dir/IMAGE.PNG'') \<and>
   handleFileRequest example_externals \<lparr>url = ''file:///unauthorized/dir/IMAGE.PNG''\<rparr>
       example_granted =
     ([Serve ''/unauthorized/dir/IMAGE.PNG''], example_granted) \<and>
   validExtensions example_granted = allowedExtensions"
proof -
  have a: "\<not> isPreferringBrowserCodeLoad example_externals"
    by (simp add: example_externals_def)
  have b: "\<not> findSubstr (validRoots example_granted)
       (URI_parse example_externals ''file:///unauthorized/dir/IMAGE.PNG'')"
    unfolding example_parse example_granted_roots
    by (simp add: findSubstr_def uriKey_def pathSegments_def)
  have c: "toLowerCase (path_extname (path (URI_parse example_externals
       ''file:///unauthorized/dir/IMAGE.PNG''))) = ''.png''"
    unfolding example_parse
    by (simp add: toLowerCase_def toLowerCase_char_def path_extname_def basename_def)
  have d: "''.png'' \<in> allowedExtensions"
    by (simp add: allowedExtensions_def)
  have e: "fsPath (URI_parse example_externals ''file:///unauthorized/dir/IMAGE.PNG'') =
       ''/unauthorized/dir/IMAGE.PNG''"
    unfolding example_parse by (simp add: fsPath_def)
  have "example_granted =
      run example_externals [SignalReadyWindow (example_window 1 ''/dev/ext'')]
        (constructor_FileProtocolHandler example_externals example_environment)"
    by (simp only: example_granted_def example_handler_def)
  from allowed_extension_served
      [OF this, of "\<lparr>url = ''file:///unauthorized/dir/IMAGE.PNG''\<rparr>"] a b c d e
  show ?thesis by simp
qed

subsection \<open>The root store\<close>

lemma toLowerCase_char_slash: "toLowerCase_char c = CHR ''/'' \<longleftrightarrow> c = CHR ''/''"
  by (simp add: toLowerCase_char_def)

lemma toLowerCase_char_idem: "toLowerCase_char (toLowerCase_char c) = toLowerCase_char c"
  by (simp add: toLowerCase_char_def)

lemma toLowerCase_idem: "toLowerCase (toLowerCase s) = toLowerCase s"
  by (simp add: toLowerCase_def toLowerCase_char_idem)

lemma segments_from_append_slash:
  "segments_from cur (s @ CHR ''/'' # t) = segments_from cur s @ segments_from [] t"
  by (induction s arbitrary: cur) simp_all

lemma segments_from_map:
  assumes "\<And>c. f c = CHR ''/'' \<longleftrightarrow> c = CHR ''/''"
  shows "segments_from (map f cur) (map f s) = map (map f) (segments_from cur s)"
proof (induction s arbitrary: cur)
  case Nil
  show ?case by simp
next
  case (Cons a s)
  from Cons.IH [of "[]"] Cons.IH [of "cur @ [a]"] show ?case
    by (simp add: assms)
qed

lemma pathSegments_toLowerCase:
  "pathSegments (toLowerCase p) = map toLowerCase (pathSegments p)"
  using segments_from_map [of toLowerCase_char "[]" p]
  by (simp add: pathSegments_def toLowerCase_def toLowerCase_char_slash)

lemma pathSegments_append_segment:
  "pathSegments (p @ ''/x'') = pathSegments p @ [''x'']"
  using segments_from_append_slash [of "[]" p "''x''"]
  by (simp add: pathSegments_def)

lemma segments_from_chars:
  "c \<in> set cur \<union> set s \<Longrightarrow> c \<noteq> CHR ''/'' \<Longrightarrow> CHR ''/'' \<notin> set cur \<Longrightarrow>
     \<exists>seg \<in> set (segments_from cur s). c \<in> set seg"
proof (induction s arbitrary: cur)
  case Nil
  then show ?case by auto
next
  case (Cons a s)
  show ?case
  proof (cases "a = CHR ''/''")
    case True
    show ?thesis
    proof (cases "c \<in> set cur")
      case True
      with \<open>a = CHR ''/''\<close> show ?thesis by auto
    next
      case False
      with Cons.prems True have "c \<in> set [] \<union> set s" by auto
      from Cons.IH [OF this Cons.prems(2)] have "\<exists>seg\<in>set (segments_from [] s). c \<in> set seg"
        by simp
      with True show ?thesis by auto
    qed
  next
    case False
    with Cons.prems have "c \<in> set (cur @ [a]) \<union> set s" and "CHR ''/'' \<notin> set (cur @ [a])"
      by auto
    from Cons.IH [OF this(1) Cons.prems(2) this(2)] False show ?thesis by simp
  qed
qed

lemma map_fixed: "map f xs = xs \<Longrightarrow> x \<in> set xs \<Longrightarrow> f x = x"
  by (induction xs) auto

lemma toLowerCase_fixed_by_segments:
  assumes "map toLowerCase (pathSegments p) = pathSegments p"
  shows "toLowerCase p = p"
proof -
  have "toLowerCase_char c = c" if "c \<in> set p" for c
  proof (cases "c = CHR ''/''")
    case True
    then show ?thesis by (simp add: toLowerCase_char_slash)
  next
    case False
    with that segments_from_chars [of c "[]" p]
    obtain seg where seg: "seg \<in> set (pathSegments p)" "c \<in> set seg"
      by (auto simp: pathSegments_def)
    from map_fixed [OF assms seg(1)] have "map toLowerCase_char seg = seg"
      by (simp add: toLowerCase_def)
    from map_fixed [OF this seg(2)] show ?thesis .
  qed
  then show ?thesis by (simp add: toLowerCase_def map_idI)
qed

lemma uriKey_set_tst [simp]: "uriKey (set_tst root v t) u = uriKey t u"
  by (simp add: uriKey_def set_tst_def)

lemma uriKey_delete_tst [simp]: "uriKey (delete_tst root t) u = uriKey t u"
  by (simp add: uriKey_def delete_tst_def)

lemma findSubstr_iff:
  "findSubstr t u \<longleftrightarrow>
     wellFormedPath (path u) \<and> \<not> emptyPath (path u) \<and>
     (\<exists>k. entries t k = Some True \<and> prefix k (uriKey t u))"
  by (auto simp: findSubstr_def)

lemma findSubstr_set_tst:
  "findSubstr (set_tst root True t) u \<longleftrightarrow>
     wellFormedPath (path u) \<and> \<not> emptyPath (path u) \<and> prefix (uriKey t root) (uriKey t u) \<or>
     findSubstr t u"
proof -
  have e: "entries (set_tst root True t) = (entries t)(uriKey t root \<mapsto> True)"
    by (simp add: set_tst_def)
  have "(\<exists>k. ((entries t)(uriKey t root \<mapsto> True)) k = Some True \<and> prefix k (uriKey t u)) \<longleftrightarrow>
        prefix (uriKey t root) (uriKey t u) \<or> (\<exists>k. entries t k = Some True \<and> prefix k (uriKey t u))"
    by (metis fun_upd_apply)
  then show ?thesis
    unfolding findSubstr_iff e uriKey_set_tst by blast
qed

lemma prefix_same_length: "prefix xs (ys @ [y]) \<Longrightarrow> length xs = length ys \<Longrightarrow> xs = ys"
  by (auto simp: prefix_def)

lemma uriKey_prefix_mono:
  "prefix (pathSegments (path root)) (pathSegments (path u)) \<Longrightarrow> prefix (uriKey t root) (uriKey t u)"
  by (simp add: uriKey_def map_mono_prefix)

text \<open>
  C2. The lookup answers true for every well-formed, non-empty path whose segments
  start with the segments of a stored root (the path is the root or a descendant of
  it); it answers false when no stored root is a segment prefix of the path, so a shared
  string prefix that ends inside a segment does not match; and it answers false for
  every empty and every malformed path.
\<close>

theorem findSubstr_matches_on_segment_boundaries:
  "(get_tst t root = Some True \<and> wellFormedPath (path u) \<and> \<not> emptyPath (path u) \<and>
    prefix (pathSegments (path root)) (pathSegments (path u)) \<longrightarrow> findSubstr t u) \<and>
   ((\<forall>k. entries t k = Some True \<longrightarrow> \<not> prefix k (uriKey t u)) \<longrightarrow> \<not> findSubstr t u) \<and>
   (emptyPath (path u) \<or> \<not> wellFormedPath (path u) \<longrightarrow> \<not> findSubstr t u)"
proof -
  have "findSubstr t u"
    if "get_tst t root = Some True" "wellFormedPath (path u)" "\<not> emptyPath (path u)"
       "prefix (pathSegments (path root)) (pathSegments (path u))"
    using that uriKey_prefix_mono [of root u t]
    unfolding findSubstr_iff get_tst_def by blast
  moreover have "\<not> findSubstr t u" if "\<forall>k. entries t k = Some True \<longrightarrow> \<not> prefix k (uriKey t u)"
    using that unfolding findSubstr_iff by blast
  moreover have "\<not> findSubstr t u" if "emptyPath (path u) \<or> \<not> wellFormedPath (path u)"
    using that unfolding findSubstr_iff by blast
  ultimately show ?thesis by blast
qed

lemmas store_defs = example_store_def set_tst_def get_tst_def forUris_def URI_file_def uriKey_def
  pathSegments_def wellFormedPath_def emptyPath_def Schemas_file_def

theorem findSubstr_matches_on_segment_boundaries_witness:
  "get_tst example_store (URI_file ''/a/b'') = Some True \<and>
   findSubstr example_store (URI_file ''/a/b'') \<and>
   findSubstr example_store (URI_file ''/a/b/c.txt'') \<and>
   prefix ''/a/b'' ''/a/bc'' \<and>
   \<not> findSubstr example_store (URI_file ''/a/bc'') \<and>
   \<not> findSubstr example_store (URI_file '''') \<and>
   \<not> findSubstr example_store (URI_file ''a/b/c.txt'')"
proof -
  have g: "get_tst example_store (URI_file ''/a/b'') = Some True"
    by (simp add: store_defs)
  have e: "entries example_store = [[''a'', ''b''] \<mapsto> True]"
    by (simp add: store_defs)
  have 1: "findSubstr example_store (URI_file ''/a/b'')"
    using findSubstr_matches_on_segment_boundaries
      [of example_store "URI_file ''/a/b''" "URI_file ''/a/b''"] g
    by (simp add: store_defs)
  have 2: "findSubstr example_store (URI_file ''/a/b/c.txt'')"
    using findSubstr_matches_on_segment_boundaries
      [of example_store "URI_file ''/a/b''" "URI_file ''/a/b/c.txt''"] g
    by (simp add: store_defs)
  have 3: "\<not> findSubstr example_store (URI_file ''/a/bc'')"
    using findSubstr_matches_on_segment_boundaries
      [of example_store "URI_file ''/a/b''" "URI_file ''/a/bc''"]
    by (simp add: e) (simp add: store_defs)
  have 4: "\<not> findSubstr example_store (URI_file '''')"
    using findSubstr_matches_on_segment_boundaries
      [of example_store "URI_file ''/a/b''" "URI_file ''''"]
    by (simp add: store_defs)
  have 5: "\<not> findSubstr example_store (URI_file ''a/b/c.txt'')"
    using findSubstr_matches_on_segment_boundaries
      [of example_store "URI_file ''/a/b''" "URI_file ''a/b/c.txt''"]
    by (simp add: store_defs)
  from g 1 2 3 4 5 show ?thesis by simp
qed

lemma ignorePathCasing_set_tst [simp]:
  "ignorePathCasing (set_tst root v t) = ignorePathCasing t"
  by (simp add: set_tst_def)

lemma ignorePathCasing_delete_tst [simp]:
  "ignorePathCasing (delete_tst root t) = ignorePathCasing t"
  by (simp add: delete_tst_def)

lemma ignorePathCasing_dispose [simp]:
  "ignorePathCasing (snd (dispose d t)) = ignorePathCasing t"
  by (cases d) simp_all

lemma ignorePathCasing_dispose_all [simp]:
  "ignorePathCasing (dispose_all ds t) = ignorePathCasing t"
  by (induction ds arbitrary: t) simp_all

lemma ignorePathCasing_addValidRoot [simp]:
  "ignorePathCasing (validRoots (snd (addValidRoot root this))) = ignorePathCasing (validRoots this)"
  by (simp add: addValidRoot_def)

lemma ignorePathCasing_addValidRoots [simp]:
  "ignorePathCasing (validRoots (snd (addValidRoots roots this))) =
     ignorePathCasing (validRoots this)"
  by (induction roots arbitrary: this) (simp_all add: split_beta Let_def)

lemma ignorePathCasing_step [simp]:
  "ignorePathCasing (validRoots (step ext e this)) = ignorePathCasing (validRoots this)"
  by (cases e)
    (simp_all add: onDidSignalReadyWindow_def onDidCloseOrDestroy_def handleFileRequest_def
      handleResourceRequest_def logService_error_def split_beta Let_def split: option.splits)

lemma ignorePathCasing_run [simp]:
  "ignorePathCasing (validRoots (run ext es this)) = ignorePathCasing (validRoots this)"
  by (induction es arbitrary: this) simp_all

lemma ignorePathCasing_constructor:
  "ignorePathCasing (validRoots (constructor_FileProtocolHandler ext environmentService)) =
     (\<not> isLinux ext)"
  by (simp add: constructor_FileProtocolHandler_def forUris_def)

lemma toLowerCase_comp: "toLowerCase \<circ> toLowerCase = toLowerCase"
  by (rule ext) (simp add: toLowerCase_idem)

lemma toLowerCase_x: "toLowerCase ''x'' = ''x''"
  by (simp add: toLowerCase_def toLowerCase_char_def)

lemma wellFormedPath_lower_child:
  "wellFormedPath R \<Longrightarrow> wellFormedPath (toLowerCase R @ ''/x'')"
  by (cases R) (simp_all add: wellFormedPath_def toLowerCase_def toLowerCase_char_slash)

lemma wellFormedPath_child: "wellFormedPath R \<Longrightarrow> wellFormedPath (R @ ''/x'')"
  by (cases R) (simp_all add: wellFormedPath_def)

lemma not_emptyPath_child: "\<not> emptyPath (p @ ''/x'')"
  by (simp add: emptyPath_def pathSegments_append_segment)

text \<open>
  C8. The store of the handler ignores path casing exactly when the host is not Linux.
  With casing ignored, a root \<open>R\<close> that was inserted covers the lowercased path
  \<open>lower R + /x\<close>; with casing kept it does not cover that path when the lowercased
  root differs from \<open>R\<close> (and no other root covers it). Insert and lookup fold the
  same way: the path \<open>R + /x\<close> is covered on both kinds of host.
\<close>

theorem roots_case_folded_unless_linux:
  assumes "wellFormedPath R"
  shows
    "ignorePathCasing (validRoots (run ext es (constructor_FileProtocolHandler ext environmentService))) =
       (\<not> isLinux ext) \<and>
     (ignorePathCasing t \<longrightarrow>
        findSubstr (set_tst (URI_file R) True t) (URI_file (toLowerCase R @ ''/x''))) \<and>
     (\<not> ignorePathCasing t \<and> toLowerCase R \<noteq> R \<and>
      \<not> findSubstr t (URI_file (toLowerCase R @ ''/x'')) \<longrightarrow>
        \<not> findSubstr (set_tst (URI_file R) True t) (URI_file (toLowerCase R @ ''/x''))) \<and>
     findSubstr (set_tst (URI_file R) True t) (URI_file (R @ ''/x''))"
proof -
  have p: "path (URI_file q) = q" for q
    by (simp add: URI_file_def)
  have a: "ignorePathCasing (validRoots (run ext es
      (constructor_FileProtocolHandler ext environmentService))) = (\<not> isLinux ext)"
    by (simp add: ignorePathCasing_constructor)
  have b: "findSubstr (set_tst (URI_file R) True t) (URI_file (toLowerCase R @ ''/x''))"
    if "ignorePathCasing t"
  proof -
    have "uriKey t (URI_file (toLowerCase R @ ''/x'')) = uriKey t (URI_file R) @ [''x'']"
      using that
      by (simp add: uriKey_def p pathSegments_append_segment pathSegments_toLowerCase
          toLowerCase_comp toLowerCase_x)
    then show ?thesis
      using wellFormedPath_lower_child [OF assms]
      by (simp add: findSubstr_set_tst p not_emptyPath_child)
  qed
  have c: "\<not> findSubstr (set_tst (URI_file R) True t) (URI_file (toLowerCase R @ ''/x''))"
    if "\<not> ignorePathCasing t" "toLowerCase R \<noteq> R"
       "\<not> findSubstr t (URI_file (toLowerCase R @ ''/x''))"
  proof -
    have "\<not> prefix (uriKey t (URI_file R)) (uriKey t (URI_file (toLowerCase R @ ''/x'')))"
    proof
      assume "prefix (uriKey t (URI_file R)) (uriKey t (URI_file (toLowerCase R @ ''/x'')))"
      with that(1) have "prefix (pathSegments R) (map toLowerCase (pathSegments R) @ [''x''])"
        by (simp add: uriKey_def p pathSegments_append_segment pathSegments_toLowerCase)
      then have "pathSegments R = map toLowerCase (pathSegments R)"
        by (rule prefix_same_length) simp
      then have "toLowerCase R = R"
        by (simp add: toLowerCase_fixed_by_segments)
      with that(2) show False by simp
    qed
    with that(3) show ?thesis
      by (simp add: findSubstr_set_tst)
  qed
  have d: "findSubstr (set_tst (URI_file R) True t) (URI_file (R @ ''/x''))"
  proof -
    have "prefix (uriKey t (URI_file R)) (uriKey t (URI_file (R @ ''/x'')))"
      by (rule uriKey_prefix_mono) (simp add: p pathSegments_append_segment)
    then show ?thesis
      using wellFormedPath_child [OF assms]
      by (simp add: findSubstr_set_tst p not_emptyPath_child)
  qed
  from a b c d show ?thesis by blast
qed

theorem roots_case_folded_unless_linux_witness:
  "wellFormedPath ''/Users/Dev'' \<and>
   toLowerCase ''/Users/Dev'' @ ''/x'' = ''/users/dev/x'' \<and>
   ignorePathCasing (forUris True) \<and>
   findSubstr (set_tst (URI_file ''/Users/Dev'') True (forUris True)) (URI_file ''/users/dev/x'') \<and>
   \<not> ignorePathCasing (forUris False) \<and>
   \<not> findSubstr (set_tst (URI_file ''/Users/Dev'') True (forUris False)) (URI_file ''/users/dev/x'') \<and>
   findSubstr (set_tst (URI_file ''/Users/Dev'') True (forUris False)) (URI_file ''/Users/Dev/x'')"
proof -
  have w: "wellFormedPath ''/Users/Dev''"
    by (simp add: wellFormedPath_def)
  have m: "toLowerCase ''/Users/Dev'' = ''/users/dev''"
    by (simp add: toLowerCase_def toLowerCase_char_def)
  have n: "\<not> findSubstr (forUris False) (URI_file ''/users/dev/x'')"
    by (simp add: findSubstr_def forUris_def)
  have i: "ignorePathCasing (forUris True)" "\<not> ignorePathCasing (forUris False)"
    by (simp_all add: forUris_def)
  from roots_case_folded_unless_linux [OF w, of example_externals "[]" example_environment "forUris True"]
    roots_case_folded_unless_linux [OF w, of example_externals "[]" example_environment "forUris False"]
    w n i
  show ?thesis
    by (simp add: m)
qed

subsection \<open>Grants and their revocation\<close>

lemma uriKey_cong: "ignorePathCasing t = ignorePathCasing t' \<Longrightarrow> uriKey t u = uriKey t' u"
  by (simp add: uriKey_def)

lemma storeKeys_cong:
  "ignorePathCasing t = ignorePathCasing t' \<Longrightarrow> storeKeys t subs = storeKeys t' subs"
  by (simp add: storeKeys_def uriKey_cong [of t t'] cong: map_cong)

lemma liveRoots_append: "liveRoots (xs @ ys) = liveRoots xs @ liveRoots ys"
  by (induction xs rule: liveRoots.induct) simp_all

lemma storeKeys_Nil [simp]: "storeKeys t [] = []"
  by (simp add: storeKeys_def)

lemma storeKeys_Cons:
  "storeKeys t (s # subs) = map (uriKey t) (liveRoots (snd s)) @ storeKeys t subs"
  by (simp add: storeKeys_def liveRoots_append)

lemma storeKeys_append: "storeKeys t (a @ b) = storeKeys t a @ storeKeys t b"
  by (induction a) (simp_all add: storeKeys_Cons)

lemma storeKeys_filter_subset: "set (storeKeys t (filter P subs)) \<subseteq> set (storeKeys t subs)"
  by (induction subs) (auto simp: storeKeys_Cons)

lemma storeKeys_filter_distinct:
  "distinct (storeKeys t subs) \<Longrightarrow> distinct (storeKeys t (filter P subs))"
proof (induction subs)
  case Nil
  show ?case by simp
next
  case (Cons s subs)
  from Cons.prems have d: "distinct (map (uriKey t) (liveRoots (snd s)))"
    "distinct (storeKeys t subs)"
    "set (map (uriKey t) (liveRoots (snd s))) \<inter> set (storeKeys t subs) = {}"
    by (simp_all add: storeKeys_Cons)
  from d(3) storeKeys_filter_subset [of t P subs]
  have "set (map (uriKey t) (liveRoots (snd s))) \<inter> set (storeKeys t (filter P subs)) = {}"
    by blast
  with d(1) Cons.IH [OF d(2)] show ?case
    by (simp add: storeKeys_Cons)
qed

lemma storeKeys_filter_disjoint:
  "distinct (storeKeys t subs) \<Longrightarrow>
     set (storeKeys t (filter P subs)) \<inter> set (storeKeys t (filter (\<lambda>s. \<not> P s) subs)) = {}"
proof (induction subs)
  case Nil
  show ?case by simp
next
  case (Cons s subs)
  from Cons.prems have d: "distinct (storeKeys t subs)"
    "set (map (uriKey t) (liveRoots (snd s))) \<inter> set (storeKeys t subs) = {}"
    by (simp_all add: storeKeys_Cons)
  from d(2) storeKeys_filter_subset [of t P subs]
    storeKeys_filter_subset [of t "\<lambda>s. \<not> P s" subs] Cons.IH [OF d(1)]
  show ?case
    by (cases "P s") (auto simp: storeKeys_Cons)
qed

lemma entries_dispose_all:
  "entries (dispose_all ds t) k =
     (if k \<in> set (map (uriKey t) (liveRoots ds)) then None else entries t k)"
proof (induction ds arbitrary: t rule: liveRoots.induct)
  case 1
  show ?case by simp
next
  case (2 ds)
  then show ?case by simp
next
  case (3 root isDisposed ds)
  show ?case
  proof (cases isDisposed)
    case True
    with 3 show ?thesis by simp
  next
    case False
    with 3(2) [of "delete_tst root t"] show ?thesis
      by (simp add: uriKey_cong [of "delete_tst root t" t]) (simp add: delete_tst_def)
  qed
qed

lemma addValidRoot_entries:
  "entries (validRoots (snd (addValidRoot root this))) =
     (entries (validRoots this))(uriKey (validRoots this) root \<mapsto> True)"
  by (auto simp: addValidRoot_def get_tst_def set_tst_def)

lemma addValidRoot_windowDisposables [simp]:
  "windowDisposables (snd (addValidRoot root this)) = windowDisposables this"
  by (simp add: addValidRoot_def)

lemma addValidRoots_windowDisposables [simp]:
  "windowDisposables (snd (addValidRoots roots this)) = windowDisposables this"
  by (induction roots arbitrary: this) (simp_all add: split_beta Let_def)

lemma uriKey_addValidRoot [simp]:
  "uriKey (validRoots (snd (addValidRoot root this))) = uriKey (validRoots this)"
  by (rule ext, rule uriKey_cong) simp

lemma uriKey_addValidRoots [simp]:
  "uriKey (validRoots (snd (addValidRoots roots this))) = uriKey (validRoots this)"
  by (rule ext, rule uriKey_cong) simp

lemma addValidRoots_entries:
  "entries (validRoots (snd (addValidRoots roots this))) k =
     (if k \<in> set (map (uriKey (validRoots this)) roots) then Some True
      else entries (validRoots this) k)"
proof (induction roots arbitrary: this)
  case Nil
  show ?case by simp
next
  case (Cons root roots)
  from Cons.IH [of "snd (addValidRoot root this)"] show ?case
    by (simp add: split_beta Let_def addValidRoot_entries)
qed

lemma liveRoots_addValidRoot:
  "liveRoots (fst (addValidRoot root this) # ds) =
     (if get_tst (validRoots this) root \<noteq> Some True then root # liveRoots ds else liveRoots ds)"
  by (simp add: addValidRoot_def)

lemma addValidRoots_handles_set:
  "set (map (uriKey (validRoots this)) (liveRoots (fst (addValidRoots roots this)))) =
     {k \<in> set (map (uriKey (validRoots this)) roots). entries (validRoots this) k \<noteq> Some True}"
proof (induction roots arbitrary: this)
  case Nil
  show ?case by simp
next
  case (Cons root roots)
  let ?K = "uriKey (validRoots this)"
  let ?this1 = "snd (addValidRoot root this)"
  let ?rest = "set (map ?K (liveRoots (fst (addValidRoots roots ?this1))))"
  have rest: "?rest = {k \<in> set (map ?K roots). k \<noteq> ?K root \<and> entries (validRoots this) k \<noteq> Some True}"
    using Cons.IH [of ?this1] by (auto simp: addValidRoot_entries)
  have split: "liveRoots (fst (addValidRoots (root # roots) this)) =
      (if entries (validRoots this) (?K root) \<noteq> Some True then [root] else []) @
      liveRoots (fst (addValidRoots roots ?this1))"
    by (simp add: split_beta Let_def liveRoots_addValidRoot get_tst_def)
  show ?case
    unfolding split using rest by (cases "entries (validRoots this) (?K root) = Some True") auto
qed

lemma addValidRoots_handles_distinct:
  "distinct (map (uriKey (validRoots this)) (liveRoots (fst (addValidRoots roots this))))"
proof (induction roots arbitrary: this)
  case Nil
  show ?case by simp
next
  case (Cons root roots)
  have "uriKey (validRoots this) root \<notin>
      set (map (uriKey (validRoots this))
        (liveRoots (fst (addValidRoots roots (snd (addValidRoot root this))))))"
    using addValidRoots_handles_set [of "snd (addValidRoot root this)" roots]
    by (simp add: addValidRoot_entries)
  with Cons.IH [of "snd (addValidRoot root this)"] show ?case
    by (simp add: split_beta Let_def liveRoots_addValidRoot)
qed

lemma newKeys_set:
  "set (newKeys window this) =
     {k \<in> set (map (uriKey (validRoots this)) (windowRoots window)).
        entries (validRoots this) k \<noteq> Some True}"
  by (simp only: newKeys_def addValidRoots_handles_set)

lemma newKeys_distinct: "distinct (newKeys window this)"
  by (simp only: newKeys_def addValidRoots_handles_distinct)

lemma ready_unfold:
  "onDidSignalReadyWindow window this = this \<and> windowRoots window = [] \<or>
   onDidSignalReadyWindow window this =
     (snd (addValidRoots (windowRoots window) this))
       \<lparr>windowDisposables := windowDisposables this @
          [(windowId window, fst (addValidRoots (windowRoots window) this))]\<rparr>"
  by (auto simp: onDidSignalReadyWindow_def windowRoots_def reportedRoots_def split_beta Let_def
      split: option.splits)

lemma ready_entries:
  "entries (validRoots (onDidSignalReadyWindow window this)) k =
     (if k \<in> set (map (uriKey (validRoots this)) (windowRoots window)) then Some True
      else entries (validRoots this) k)"
  using ready_unfold [of window this]
  by (auto simp: addValidRoots_entries)

lemma ready_ignorePathCasing:
  "ignorePathCasing (validRoots (onDidSignalReadyWindow window this)) =
     ignorePathCasing (validRoots this)"
  using ignorePathCasing_step [of ext "SignalReadyWindow window" this] by simp

lemma ready_storeKeys:
  "storeKeys (validRoots (onDidSignalReadyWindow window this))
       (filter P (windowDisposables (onDidSignalReadyWindow window this))) =
     storeKeys (validRoots this) (filter P (windowDisposables this)) @
       (if P (windowId window, fst (addValidRoots (windowRoots window) this))
        then newKeys window this else [])"
proof -
  have c: "storeKeys (validRoots (onDidSignalReadyWindow window this)) subs =
      storeKeys (validRoots this) subs" for subs
    by (rule storeKeys_cong) (rule ready_ignorePathCasing)
  have n: "newKeys window this = []" if "windowRoots window = []"
    using that by (simp add: newKeys_def)
  from ready_unfold [of window this] show ?thesis
  proof
    assume "onDidSignalReadyWindow window this = this \<and> windowRoots window = []"
    then show ?thesis by (simp add: n)
  next
    assume a: "onDidSignalReadyWindow window this =
      (snd (addValidRoots (windowRoots window) this))
        \<lparr>windowDisposables := windowDisposables this @
           [(windowId window, fst (addValidRoots (windowRoots window) this))]\<rparr>"
    have "windowDisposables (onDidSignalReadyWindow window this) =
        windowDisposables this @ [(windowId window, fst (addValidRoots (windowRoots window) this))]"
      by (subst a) simp
    then show ?thesis
      unfolding c by (simp add: storeKeys_append storeKeys_Cons newKeys_def)
  qed
qed

lemma ready_grantedKeys:
  "grantedKeys (onDidSignalReadyWindow window this) = grantedKeys this @ newKeys window this"
  using ready_storeKeys [of window this "\<lambda>s. True"]
  by (simp add: grantedKeys_def)

lemma ready_windowKeys:
  "windowKeys v (onDidSignalReadyWindow window this) =
     windowKeys v this @ (if windowId window = v then newKeys window this else [])"
  using ready_storeKeys [of window this "\<lambda>s. fst s = v"]
  by (simp add: windowKeys_def)

lemma close_entries:
  "entries (validRoots (onDidCloseOrDestroy w this)) k =
     (if k \<in> set (windowKeys w this) then None else entries (validRoots this) k)"
  by (simp add: onDidCloseOrDestroy_def entries_dispose_all windowKeys_def storeKeys_def)

lemma close_storeKeys:
  "storeKeys (validRoots (onDidCloseOrDestroy w this)) subs = storeKeys (validRoots this) subs"
  by (rule storeKeys_cong) (simp add: onDidCloseOrDestroy_def)

lemma close_grantedKeys:
  "grantedKeys (onDidCloseOrDestroy w this) =
     storeKeys (validRoots this) (filter (\<lambda>s. \<not> fst s = w) (windowDisposables this))"
  unfolding grantedKeys_def close_storeKeys by (simp add: onDidCloseOrDestroy_def)

lemma close_windowKeys:
  "windowKeys v (onDidCloseOrDestroy w this) = (if v = w then [] else windowKeys v this)"
proof -
  have "filter (\<lambda>s. fst s = v) (filter (\<lambda>s. fst s \<noteq> w) subs) =
      (if v = w then [] else filter (\<lambda>s. fst s = v) subs)" for subs :: "(nat \<times> disposable list) list"
    by (induction subs) auto
  then show ?thesis
    unfolding windowKeys_def close_storeKeys by (simp add: onDidCloseOrDestroy_def)
qed

lemma windowKeys_subset: "set (windowKeys w this) \<subseteq> set (grantedKeys this)"
  unfolding windowKeys_def grantedKeys_def by (rule storeKeys_filter_subset)

lemma windowKeys_disjoint:
  assumes "distinct (grantedKeys this)" "v \<noteq> w"
  shows "set (windowKeys v this) \<inter> set (windowKeys w this) = {}"
proof -
  have "set (windowKeys v this) \<subseteq>
      set (storeKeys (validRoots this) (filter (\<lambda>s. \<not> fst s = w) (windowDisposables this)))"
  proof -
    have "filter (\<lambda>s. fst s = v) (filter (\<lambda>s. \<not> fst s = w) subs) = filter (\<lambda>s. fst s = v) subs"
      for subs :: "(nat \<times> disposable list) list"
      using assms(2) by (induction subs) auto
    from this [of "windowDisposables this", symmetric] show ?thesis
      unfolding windowKeys_def by (simp only: storeKeys_filter_subset)
  qed
  with storeKeys_filter_disjoint [of "validRoots this" "windowDisposables this" "\<lambda>s. fst s = w"]
    assms(1)
  show ?thesis
    unfolding windowKeys_def grantedKeys_def by blast
qed

lemma request_validRoots [simp]:
  "validRoots (snd (handleFileRequest ext request this)) = validRoots this"
  "validRoots (snd (handleResourceRequest ext request this)) = validRoots this"
  by (simp_all add: handleFileRequest_def handleResourceRequest_def logService_error_def Let_def)

lemma request_windowDisposables [simp]:
  "windowDisposables (snd (handleFileRequest ext request this)) = windowDisposables this"
  "windowDisposables (snd (handleResourceRequest ext request this)) = windowDisposables this"
  by (simp_all add: handleFileRequest_def handleResourceRequest_def logService_error_def Let_def)

lemma grantsConsistent_ready:
  assumes "grantsConsistent boot this"
  shows "grantsConsistent boot (onDidSignalReadyWindow window this)"
proof -
  from assms have b: "\<forall>k\<in>boot. entries (validRoots this) k = Some True"
    and d: "distinct (grantedKeys this)"
    and g: "\<forall>k\<in>set (grantedKeys this). entries (validRoots this) k = Some True \<and> k \<notin> boot"
    by (simp_all add: grantsConsistent_def)
  have n: "\<forall>k\<in>set (newKeys window this). entries (validRoots this) k \<noteq> Some True \<and>
      k \<in> set (map (uriKey (validRoots this)) (windowRoots window))"
    by (simp add: newKeys_set)
  from b have 1: "\<forall>k\<in>boot. entries (validRoots (onDidSignalReadyWindow window this)) k = Some True"
    by (simp add: ready_entries)
  from d g n newKeys_distinct [of window this]
  have 2: "distinct (grantedKeys (onDidSignalReadyWindow window this))"
    unfolding ready_grantedKeys by auto
  from g n b have 3: "\<forall>k\<in>set (grantedKeys (onDidSignalReadyWindow window this)).
      entries (validRoots (onDidSignalReadyWindow window this)) k = Some True \<and> k \<notin> boot"
    unfolding ready_grantedKeys ready_entries by auto
  from 1 2 3 show ?thesis by (simp add: grantsConsistent_def)
qed

lemma grantsConsistent_close:
  assumes "grantsConsistent boot this"
  shows "grantsConsistent boot (onDidCloseOrDestroy w this)"
proof -
  from assms have b: "\<forall>k\<in>boot. entries (validRoots this) k = Some True"
    and d: "distinct (grantedKeys this)"
    and g: "\<forall>k\<in>set (grantedKeys this). entries (validRoots this) k = Some True \<and> k \<notin> boot"
    by (simp_all add: grantsConsistent_def)
  have s: "set (grantedKeys (onDidCloseOrDestroy w this)) \<subseteq> set (grantedKeys this)"
    unfolding close_grantedKeys unfolding grantedKeys_def by (rule storeKeys_filter_subset)
  have x: "set (windowKeys w this) \<inter> set (grantedKeys (onDidCloseOrDestroy w this)) = {}"
    unfolding close_grantedKeys windowKeys_def
    using storeKeys_filter_disjoint [of "validRoots this" "windowDisposables this" "\<lambda>s. fst s = w"] d
    by (simp add: grantedKeys_def)
  from b g windowKeys_subset [of w this]
  have 1: "\<forall>k\<in>boot. entries (validRoots (onDidCloseOrDestroy w this)) k = Some True"
    unfolding close_entries by auto
  from d have 2: "distinct (grantedKeys (onDidCloseOrDestroy w this))"
    unfolding close_grantedKeys unfolding grantedKeys_def by (rule storeKeys_filter_distinct)
  from g s x have 3: "\<forall>k\<in>set (grantedKeys (onDidCloseOrDestroy w this)).
      entries (validRoots (onDidCloseOrDestroy w this)) k = Some True \<and> k \<notin> boot"
    unfolding close_entries by auto
  from 1 2 3 show ?thesis by (simp add: grantsConsistent_def)
qed

lemma grantsConsistent_step:
  "grantsConsistent boot this \<Longrightarrow> grantsConsistent boot (step ext e this)"
proof (cases e)
  case (SignalReadyWindow window)
  assume "grantsConsistent boot this"
  with SignalReadyWindow show ?thesis by (simp add: grantsConsistent_ready)
next
  case (WindowClose w)
  assume "grantsConsistent boot this"
  with WindowClose show ?thesis by (simp add: grantsConsistent_close)
next
  case (WindowDestroy w)
  assume "grantsConsistent boot this"
  with WindowDestroy show ?thesis by (simp add: grantsConsistent_close)
next
  case (FileRequest request)
  assume "grantsConsistent boot this"
  with FileRequest show ?thesis by (simp add: grantsConsistent_def grantedKeys_def)
next
  case (ResourceRequest request)
  assume "grantsConsistent boot this"
  with ResourceRequest show ?thesis by (simp add: grantsConsistent_def grantedKeys_def)
qed

lemma grantsConsistent_run:
  "grantsConsistent boot this \<Longrightarrow> grantsConsistent boot (run ext es this)"
  by (induction es arbitrary: this) (simp_all add: grantsConsistent_step)

lemma entries_constructor:
  "entries (validRoots (constructor_FileProtocolHandler ext environmentService)) =
     [uriKey (forUris (\<not> isLinux ext)) (URI_file (appRoot environmentService)) \<mapsto> True,
      uriKey (forUris (\<not> isLinux ext)) (URI_file (extensionsPath environmentService)) \<mapsto> True,
      uriKey (forUris (\<not> isLinux ext)) (globalStorageHome environmentService) \<mapsto> True,
      uriKey (forUris (\<not> isLinux ext)) (workspaceStorageHome environmentService) \<mapsto> True]"
proof -
  have k: "uriKey (set_tst a b t) = uriKey t" for a b t
    by (rule ext) simp
  have e: "entries (set_tst u v t) = (entries t)(uriKey t u \<mapsto> v)" for u v t
    by (simp add: set_tst_def)
  have f: "entries (forUris c) = Map.empty" for c
    by (simp add: forUris_def)
  show ?thesis
    by (simp add: constructor_FileProtocolHandler_def e k f)
qed

lemma grantsConsistent_constructor:
  "grantsConsistent (set (bootstrapKeys ext environmentService))
     (constructor_FileProtocolHandler ext environmentService)"
proof -
  have "windowDisposables (constructor_FileProtocolHandler ext environmentService) = []"
    by (simp add: constructor_FileProtocolHandler_def)
  then have g: "grantedKeys (constructor_FileProtocolHandler ext environmentService) = []"
    by (simp add: grantedKeys_def)
  have "\<forall>k \<in> set (bootstrapKeys ext environmentService).
      entries (validRoots (constructor_FileProtocolHandler ext environmentService)) k = Some True"
    unfolding entries_constructor by (simp add: bootstrapKeys_def)
  with g show ?thesis
    by (simp add: grantsConsistent_def)
qed

lemma reachable_grantsConsistent:
  "grantsConsistent (set (bootstrapKeys ext environmentService))
     (run ext es (constructor_FileProtocolHandler ext environmentService))"
  by (rule grantsConsistent_run) (rule grantsConsistent_constructor)

lemma close_twice:
  "onDidCloseOrDestroy w (onDidCloseOrDestroy w this) = onDidCloseOrDestroy w this"
proof -
  have a: "filter (\<lambda>s. fst s = w) (filter (\<lambda>s. fst s \<noteq> w) subs) = []"
    for subs :: "(nat \<times> disposable list) list"
    by (induction subs) auto
  show ?thesis
    by (simp add: onDidCloseOrDestroy_def a)
qed

lemma dispose_frame:
  "k \<noteq> uriKey t root \<Longrightarrow> entries (snd (dispose (ToDisposable root isDisposed) t)) k = entries t k"
  by (simp add: delete_tst_def)

text \<open>
  C9. In every state the handler reaches from its construction: granting a root that is
  already stored returns the no-op handle and changes nothing; granting a root that is
  not stored adds that one entry and returns the handle that deletes it; disposing a
  handle changes no entry but the one of its root; the bootstrap roots are stored and no
  live handle deletes one of them; no two live handles delete the same entry; and a
  window's close or destroy signal changes no entry but those of its own live handles,
  which are none of another window's.
\<close>

theorem revocation_removes_only_its_own_root:
  assumes "this = run ext es (constructor_FileProtocolHandler ext environmentService)"
  shows
    "(get_tst (validRoots this) root = Some True \<longrightarrow>
        addValidRoot root this = (Disposable_None, this)) \<and>
     dispose Disposable_None t = (Disposable_None, t) \<and>
     (get_tst (validRoots this) root \<noteq> Some True \<longrightarrow>
        addValidRoot root this =
          (ToDisposable root False, this\<lparr>validRoots := set_tst root True (validRoots this)\<rparr>)) \<and>
     (\<forall>k. k \<noteq> uriKey t root \<longrightarrow>
        entries (snd (dispose (ToDisposable root isDisposed) t)) k = entries t k) \<and>
     (\<forall>k \<in> set (bootstrapKeys ext environmentService).
        entries (validRoots this) k = Some True \<and> k \<notin> set (grantedKeys this)) \<and>
     distinct (grantedKeys this) \<and>
     (\<forall>k. k \<notin> set (windowKeys w this) \<longrightarrow>
        entries (validRoots (onDidCloseOrDestroy w this)) k = entries (validRoots this) k) \<and>
     (\<forall>v. v \<noteq> w \<longrightarrow> set (windowKeys v this) \<inter> set (windowKeys w this) = {})"
proof -
  have inv: "grantsConsistent (set (bootstrapKeys ext environmentService)) this"
    unfolding assms by (rule reachable_grantsConsistent)
  then have d: "distinct (grantedKeys this)"
    by (simp add: grantsConsistent_def)
  from inv have b: "\<forall>k \<in> set (bootstrapKeys ext environmentService).
      entries (validRoots this) k = Some True \<and> k \<notin> set (grantedKeys this)"
    unfolding grantsConsistent_def by blast
  have 1: "get_tst (validRoots this) root = Some True \<longrightarrow>
      addValidRoot root this = (Disposable_None, this)"
    by (simp add: addValidRoot_def)
  have 3: "get_tst (validRoots this) root \<noteq> Some True \<longrightarrow>
      addValidRoot root this =
        (ToDisposable root False, this\<lparr>validRoots := set_tst root True (validRoots this)\<rparr>)"
    by (simp add: addValidRoot_def)
  have 4: "\<forall>k. k \<noteq> uriKey t root \<longrightarrow>
      entries (snd (dispose (ToDisposable root isDisposed) t)) k = entries t k"
    using dispose_frame by blast
  have 7: "\<forall>k. k \<notin> set (windowKeys w this) \<longrightarrow>
      entries (validRoots (onDidCloseOrDestroy w this)) k = entries (validRoots this) k"
    by (simp add: close_entries)
  have 8: "\<forall>v. v \<noteq> w \<longrightarrow> set (windowKeys v this) \<inter> set (windowKeys w this) = {}"
    using windowKeys_disjoint [OF d] by blast
  from 1 3 4 b d 7 8 show ?thesis by simp
qed

text \<open>
  C10. After a handle has been disposed once, disposing it again changes no store: not
  the store the first call left, and no later store either, so a root that another grant
  of the same path has added in the meantime stays. The first call of a live handle
  deletes its root. A window's second close or destroy signal changes nothing.
\<close>

theorem revoke_twice_is_revoke_once:
  assumes "dispose d t = (d', t')"
  shows "dispose d' t' = (d', t') \<and>
         (\<forall>s. dispose d' s = (d', s)) \<and>
         (\<forall>root. d = ToDisposable root False \<longrightarrow>
            t' = delete_tst root t \<and> get_tst t' root = None \<and>
            get_tst (snd (dispose d' (set_tst root True t'))) root = Some True) \<and>
         onDidCloseOrDestroy w (onDidCloseOrDestroy w this) = onDidCloseOrDestroy w this"
proof -
  have a: "\<forall>s. dispose d' s = (d', s)"
    using assms by (cases d) (auto split: if_splits)
  have c: "get_tst (set_tst root True s) root = Some True" for root s
    by (simp add: get_tst_def set_tst_def uriKey_def)
  have b: "\<forall>root. d = ToDisposable root False \<longrightarrow>
      t' = delete_tst root t \<and> get_tst t' root = None \<and>
      get_tst (snd (dispose d' (set_tst root True t'))) root = Some True"
  proof (intro allI impI)
    fix root
    assume "d = ToDisposable root False"
    with assms have t': "t' = delete_tst root t"
      by simp
    have "get_tst (delete_tst root t) root = None"
      by (simp add: get_tst_def delete_tst_def uriKey_def)
    with t' a c show "t' = delete_tst root t \<and> get_tst t' root = None \<and>
      get_tst (snd (dispose d' (set_tst root True t'))) root = Some True"
      by simp
  qed
  from a b close_twice [of w this] show ?thesis by blast
qed

lemma uriKey_step [simp]: "uriKey (validRoots (step ext e this)) = uriKey (validRoots this)"
  by (rule ext, rule uriKey_cong) simp

lemma uriKey_run [simp]: "uriKey (validRoots (run ext es this)) = uriKey (validRoots this)"
  by (rule ext, rule uriKey_cong) simp

lemma uriKey_close [simp]:
  "uriKey (validRoots (onDidCloseOrDestroy w this)) = uriKey (validRoots this)"
  using uriKey_step [of ext "WindowClose w" this] by simp

lemma uriKey_ready [simp]:
  "uriKey (validRoots (onDidSignalReadyWindow window this)) = uriKey (validRoots this)"
  using uriKey_step [of ext "SignalReadyWindow window" this] by simp

lemma run_append: "run ext (xs @ ys) this = run ext ys (run ext xs this)"
  by (induction xs arbitrary: this) simp_all

lemma windowKeys_step_mono:
  assumes "\<not> terminalFor w e"
  shows "set (windowKeys w this) \<subseteq> set (windowKeys w (step ext e this))"
proof (cases e)
  case (SignalReadyWindow window)
  then show ?thesis by (simp add: ready_windowKeys)
next
  case (WindowClose v)
  with assms have "v \<noteq> w" by (simp add: terminalFor_def)
  with WindowClose show ?thesis by (simp add: close_windowKeys)
next
  case (WindowDestroy v)
  with assms have "v \<noteq> w" by (simp add: terminalFor_def)
  with WindowDestroy show ?thesis by (simp add: close_windowKeys)
next
  case (FileRequest request)
  then show ?thesis by (simp add: windowKeys_def)
next
  case (ResourceRequest request)
  then show ?thesis by (simp add: windowKeys_def)
qed

lemma windowKeys_run_mono:
  "\<forall>e \<in> set es. \<not> terminalFor w e \<Longrightarrow>
     set (windowKeys w this) \<subseteq> set (windowKeys w (run ext es this))"
proof (induction es arbitrary: this)
  case Nil
  show ?case by simp
next
  case (Cons e es)
  from Cons.prems have "\<not> terminalFor w e" and "\<forall>e \<in> set es. \<not> terminalFor w e"
    by simp_all
  from windowKeys_step_mono [OF this(1), of this ext] Cons.IH [OF this(2), of "step ext e this"]
  show ?case by auto
qed

text \<open>
  C4, as amended. In every state the handler reaches from its construction, when window
  \<open>w\<close> signals close or destroy, every root that a grant of another window \<open>v\<close> added
  (the root of a live handle of \<open>v\<close>) stays stored, every well-formed path under it stays
  covered, \<open>v\<close> keeps its handles, and no entry but those of the live handles of \<open>w\<close>
  changes.
\<close>

theorem grants_of_other_windows_survive_close:
  assumes "this = run ext es (constructor_FileProtocolHandler ext environmentService)"
    and "v \<noteq> w"
  shows
    "(\<forall>k \<in> set (windowKeys v this).
        entries (validRoots this) k = Some True \<and>
        entries (validRoots (onDidCloseOrDestroy w this)) k = Some True \<and>
        (\<forall>u. wellFormedPath (path u) \<and> \<not> emptyPath (path u) \<and>
              prefix k (uriKey (validRoots this) u) \<longrightarrow>
              findSubstr (validRoots (onDidCloseOrDestroy w this)) u)) \<and>
     windowKeys v (onDidCloseOrDestroy w this) = windowKeys v this \<and>
     (\<forall>k. k \<notin> set (windowKeys w this) \<longrightarrow>
        entries (validRoots (onDidCloseOrDestroy w this)) k = entries (validRoots this) k)"
proof -
  have inv: "grantsConsistent (set (bootstrapKeys ext environmentService)) this"
    unfolding assms(1) by (rule reachable_grantsConsistent)
  then have d: "distinct (grantedKeys this)"
    and g: "\<forall>k\<in>set (grantedKeys this). entries (validRoots this) k = Some True"
    by (simp_all add: grantsConsistent_def)
  have 1: "entries (validRoots this) k = Some True \<and>
      entries (validRoots (onDidCloseOrDestroy w this)) k = Some True \<and>
      (\<forall>u. wellFormedPath (path u) \<and> \<not> emptyPath (path u) \<and>
            prefix k (uriKey (validRoots this) u) \<longrightarrow>
            findSubstr (validRoots (onDidCloseOrDestroy w this)) u)"
    if k: "k \<in> set (windowKeys v this)" for k
  proof -
    from k windowKeys_subset [of v this] g have a: "entries (validRoots this) k = Some True"
      by blast
    from k windowKeys_disjoint [OF d assms(2)] have "k \<notin> set (windowKeys w this)"
      by blast
    with a have b: "entries (validRoots (onDidCloseOrDestroy w this)) k = Some True"
      by (simp add: close_entries)
    then have "findSubstr (validRoots (onDidCloseOrDestroy w this)) u"
      if "wellFormedPath (path u) \<and> \<not> emptyPath (path u) \<and> prefix k (uriKey (validRoots this) u)"
      for u
      using that unfolding findSubstr_iff by auto
    with a b show ?thesis by blast
  qed
  have 2: "windowKeys v (onDidCloseOrDestroy w this) = windowKeys v this"
    using assms(2) by (simp add: close_windowKeys)
  have 3: "\<forall>k. k \<notin> set (windowKeys w this) \<longrightarrow>
      entries (validRoots (onDidCloseOrDestroy w this)) k = entries (validRoots this) k"
    by (simp add: close_entries)
  from 1 2 3 show ?thesis by blast
qed

text \<open>
  C5, as amended. In every state the handler reaches from its construction, every root a
  ready window reports is stored right after the ready signal. A reported root that was
  not stored before (the window's grant adds it) is stored after every sequence of events
  without a close or destroy signal of that window, and is deleted by the window's close
  signal and by its destroy signal, whichever comes first; the second terminal signal
  changes nothing.
\<close>

theorem added_root_lives_until_first_terminal_signal:
  assumes "this = run ext es (constructor_FileProtocolHandler ext environmentService)"
    and "root \<in> set (windowRoots window)"
  shows
    "get_tst (validRoots (onDidSignalReadyWindow window this)) root = Some True \<and>
     (get_tst (validRoots this) root \<noteq> Some True \<and>
      (\<forall>e \<in> set es'. \<not> terminalFor (windowId window) e) \<longrightarrow>
        get_tst (validRoots (run ext es' (onDidSignalReadyWindow window this))) root = Some True \<and>
        get_tst (validRoots (step ext (WindowClose (windowId window))
          (run ext es' (onDidSignalReadyWindow window this)))) root = None \<and>
        get_tst (validRoots (step ext (WindowDestroy (windowId window))
          (run ext es' (onDidSignalReadyWindow window this)))) root = None) \<and>
     step ext (WindowDestroy (windowId window)) (step ext (WindowClose (windowId window)) that) =
       step ext (WindowClose (windowId window)) that \<and>
     step ext (WindowClose (windowId window)) (step ext (WindowDestroy (windowId window)) that) =
       step ext (WindowDestroy (windowId window)) that"
proof -
  let ?K = "uriKey (validRoots this)"
  let ?ready = "onDidSignalReadyWindow window this"
  let ?later = "run ext es' ?ready"
  let ?w = "windowId window"
  from assms(2) have r: "?K root \<in> set (map ?K (windowRoots window))"
    by simp
  then have 1: "get_tst (validRoots ?ready) root = Some True"
    by (simp add: get_tst_def ready_entries)
  have 2: "get_tst (validRoots ?later) root = Some True \<and>
      get_tst (validRoots (step ext (WindowClose ?w) ?later)) root = None \<and>
      get_tst (validRoots (step ext (WindowDestroy ?w) ?later)) root = None"
    if n: "get_tst (validRoots this) root \<noteq> Some True"
      and e: "\<forall>e \<in> set es'. \<not> terminalFor ?w e"
  proof -
    from n r have "?K root \<in> set (newKeys window this)"
      by (simp add: newKeys_set get_tst_def)
    then have "?K root \<in> set (windowKeys ?w ?ready)"
      by (simp add: ready_windowKeys)
    with windowKeys_run_mono [OF e, of ?ready ext]
    have k: "?K root \<in> set (windowKeys ?w ?later)"
      by blast
    have "?later = run ext (es @ SignalReadyWindow window # es')
        (constructor_FileProtocolHandler ext environmentService)"
      unfolding assms(1) by (simp add: run_append)
    then have "grantsConsistent (set (bootstrapKeys ext environmentService)) ?later"
      by (simp only: reachable_grantsConsistent)
    with k windowKeys_subset [of ?w ?later]
    have "entries (validRoots ?later) (?K root) = Some True"
      unfolding grantsConsistent_def by blast
    then have a: "get_tst (validRoots ?later) root = Some True"
      by (simp add: get_tst_def)
    from k have "entries (validRoots (onDidCloseOrDestroy ?w ?later)) (?K root) = None"
      by (simp add: close_entries)
    then have "get_tst (validRoots (onDidCloseOrDestroy ?w ?later)) root = None"
      by (simp add: get_tst_def)
    with a show ?thesis by simp
  qed
  from 1 2 close_twice [of ?w that] show ?thesis by simp
qed

lemmas window_defs =
  example_handler_def constructor_FileProtocolHandler_def example_externals_def
  example_environment_def example_window_def onDidSignalReadyWindow_def onDidCloseOrDestroy_def
  reportedRoots_def addValidRoot_def get_tst_def set_tst_def delete_tst_def forUris_def
  uriKey_def pathSegments_def URI_file_def Schemas_file_def

lemma example_handler_roots:
  "validRoots example_handler =
     \<lparr>ignorePathCasing = False,
      entries = [[''app''] \<mapsto> True, [''ext''] \<mapsto> True, [''data'', ''global''] \<mapsto> True,
                 [''data'', ''workspace''] \<mapsto> True]\<rparr>"
  by (simp add: window_defs)

lemma example_shared_roots:
  "validRoots example_shared =
     \<lparr>ignorePathCasing = False,
      entries = [[''app''] \<mapsto> True, [''ext''] \<mapsto> True, [''data'', ''global''] \<mapsto> True,
                 [''data'', ''workspace''] \<mapsto> True, [''dev'', ''ext''] \<mapsto> True]\<rparr>"
  by (simp add: example_shared_def window_defs)

lemma example_shared_windows:
  "windowDisposables example_shared =
     [(1, [ToDisposable (URI_file ''/dev/ext'') False]), (2, [Disposable_None])]"
  by (simp add: example_shared_def window_defs)

lemma example_shared_closed_roots:
  "validRoots (step example_externals (WindowClose 1) example_shared) =
     \<lparr>ignorePathCasing = False,
      entries = [[''app''] \<mapsto> True, [''ext''] \<mapsto> True, [''data'', ''global''] \<mapsto> True,
                 [''data'', ''workspace''] \<mapsto> True, [''dev'', ''ext''] \<mapsto> True]
                ([''dev'', ''ext''] := None)\<rparr>"
  by (simp add: onDidCloseOrDestroy_def example_shared_roots example_shared_windows
      delete_tst_def uriKey_def URI_file_def pathSegments_def)

lemma example_shared_closed_windows:
  "windowDisposables (step example_externals (WindowClose 1) example_shared) =
     [(2, [Disposable_None])]"
  by (simp add: onDidCloseOrDestroy_def example_shared_windows)

lemma main_js_key:
  "uriKey \<lparr>ignorePathCasing = False, entries = m\<rparr> (URI_file ''/dev/ext/main.js'') =
     [''dev'', ''ext'', ''main.js'']"
  "wellFormedPath (path (URI_file ''/dev/ext/main.js''))"
  "\<not> emptyPath (path (URI_file ''/dev/ext/main.js''))"
  by (simp_all add: uriKey_def URI_file_def pathSegments_def wellFormedPath_def emptyPath_def)

text \<open>
  C4 as stated fails when two windows are granted the same path: the second grant finds
  the root stored and gets the no-op handle, and the close of the first window deletes
  the root while the second window is still open.
\<close>

theorem same_path_grant_lost_when_other_window_closes:
  "URI_file ''/dev/ext'' \<in> set (windowRoots (example_window 1 ''/dev/ext'')) \<and>
   URI_file ''/dev/ext'' \<in> set (windowRoots (example_window 2 ''/dev/ext'')) \<and>
   findSubstr (validRoots example_shared) (URI_file ''/dev/ext/main.js'') \<and>
   (2, [Disposable_None]) \<in>
     set (windowDisposables (step example_externals (WindowClose 1) example_shared)) \<and>
   \<not> findSubstr (validRoots (step example_externals (WindowClose 1) example_shared))
       (URI_file ''/dev/ext/main.js'')"
proof -
  have a: "URI_file ''/dev/ext'' \<in> set (windowRoots (example_window w ''/dev/ext''))" for w
    by (simp add: windowRoots_def example_window_def reportedRoots_def)
  have b: "findSubstr (validRoots example_shared) (URI_file ''/dev/ext/main.js'')"
    unfolding example_shared_roots findSubstr_def by (simp add: main_js_key)
  have c: "\<not> findSubstr (validRoots (step example_externals (WindowClose 1) example_shared))
       (URI_file ''/dev/ext/main.js'')"
    unfolding example_shared_closed_roots findSubstr_def by (simp add: main_js_key)
  have d: "(2, [Disposable_None]) \<in>
      set (windowDisposables (step example_externals (WindowClose 1) example_shared))"
    unfolding example_shared_closed_windows by simp
  from a b c d show ?thesis by blast
qed

lemma example_regranted_roots:
  "validRoots example_regranted =
     \<lparr>ignorePathCasing = False,
      entries = [[''app''] \<mapsto> True, [''ext''] \<mapsto> True, [''data'', ''global''] \<mapsto> True,
                 [''data'', ''workspace''] \<mapsto> True, [''work'', ''ext''] \<mapsto> True]
                ([''work'', ''ext''] := None)\<rparr>"
  by (simp add: example_regranted_def window_defs)

lemma example_regranted_windows:
  "windowDisposables example_regranted = [(4, [Disposable_None])]"
  by (simp add: example_regranted_def window_defs)

text \<open>
  C5 as stated fails for a grant that found its root stored by the grant of another
  window: window 4 reports the path of window 3, window 3 is destroyed, and the root is
  gone although window 4 has signalled neither close nor destroy.
\<close>

theorem reported_root_absent_before_terminal_signal:
  "URI_file ''/work/ext'' \<in> set (windowRoots (example_window 4 ''/work/ext'')) \<and>
   \<not> terminalFor 4 (WindowDestroy 3) \<and>
   (4, [Disposable_None]) \<in> set (windowDisposables example_regranted) \<and>
   get_tst (validRoots example_regranted) (URI_file ''/work/ext'') = None"
proof -
  have a: "URI_file ''/work/ext'' \<in> set (windowRoots (example_window 4 ''/work/ext''))"
    by (simp add: windowRoots_def example_window_def reportedRoots_def)
  have b: "\<not> terminalFor 4 (WindowDestroy 3)"
    by (simp add: terminalFor_def)
  have c: "(4, [Disposable_None]) \<in> set (windowDisposables example_regranted)"
    unfolding example_regranted_windows by simp
  have d: "get_tst (validRoots example_regranted) (URI_file ''/work/ext'') = None"
    unfolding example_regranted_roots
    by (simp add: get_tst_def uriKey_def URI_file_def pathSegments_def)
  from a b c d show ?thesis by blast
qed

lemma example_two_roots:
  "validRoots example_two =
     \<lparr>ignorePathCasing = False,
      entries = [[''app''] \<mapsto> True, [''ext''] \<mapsto> True, [''data'', ''global''] \<mapsto> True,
                 [''data'', ''workspace''] \<mapsto> True, [''dev'', ''ext''] \<mapsto> True,
                 [''dev'', ''other''] \<mapsto> True]\<rparr>"
  by (simp add: example_two_def window_defs)

lemma example_two_windows:
  "windowDisposables example_two =
     [(1, [ToDisposable (URI_file ''/dev/ext'') False]),
      (2, [ToDisposable (URI_file ''/dev/other'') False])]"
  by (simp add: example_two_def window_defs)

lemma example_two_windowKeys: "windowKeys 2 example_two = [[''dev'', ''other'']]"
  unfolding windowKeys_def storeKeys_def example_two_windows example_two_roots
  by (simp add: uriKey_def URI_file_def pathSegments_def)

theorem grants_of_other_windows_survive_close_witness:
  "(2::nat) \<noteq> 1 \<and>
   [''dev'', ''other''] \<in> set (windowKeys 2 example_two) \<and>
   entries (validRoots (onDidCloseOrDestroy 1 example_two)) [''dev'', ''other''] = Some True \<and>
   findSubstr (validRoots (onDidCloseOrDestroy 1 example_two)) (URI_file ''/dev/other/main.js'') \<and>
   [''app''] \<notin> set (windowKeys 1 example_two) \<and>
   entries (validRoots (onDidCloseOrDestroy 1 example_two)) [''app''] =
     entries (validRoots example_two) [''app'']"
proof -
  have r: "example_two =
      run example_externals
        [SignalReadyWindow (example_window 1 ''/dev/ext''),
         SignalReadyWindow (example_window 2 ''/dev/other'')]
        (constructor_FileProtocolHandler example_externals example_environment)"
    by (simp only: example_two_def example_handler_def)
  have n: "(2::nat) \<noteq> 1"
    by simp
  have k: "[''dev'', ''other''] \<in> set (windowKeys 2 example_two)"
    by (simp add: example_two_windowKeys)
  have u: "wellFormedPath (path (URI_file ''/dev/other/main.js'')) \<and>
      \<not> emptyPath (path (URI_file ''/dev/other/main.js'')) \<and>
      prefix [''dev'', ''other''] (uriKey (validRoots example_two) (URI_file ''/dev/other/main.js''))"
    unfolding example_two_roots
    by (simp add: uriKey_def URI_file_def pathSegments_def wellFormedPath_def emptyPath_def)
  have a: "[''app''] \<notin> set (windowKeys 1 example_two)"
    unfolding windowKeys_def storeKeys_def example_two_windows example_two_roots
    by (simp add: uriKey_def URI_file_def pathSegments_def)
  from grants_of_other_windows_survive_close [OF r n] k u n a show ?thesis
    by blast
qed

lemma example_granted_windows:
  "windowDisposables example_granted = [(1, [ToDisposable (URI_file ''/dev/ext'') False])]"
  by (simp add: example_granted_def window_defs)

theorem revocation_removes_only_its_own_root_witness:
  "get_tst (validRoots example_granted) (URI_file ''/dev/ext'') = Some True \<and>
   addValidRoot (URI_file ''/dev/ext'') example_granted = (Disposable_None, example_granted) \<and>
   get_tst (validRoots example_granted) (URI_file ''/dev/new'') = None \<and>
   fst (addValidRoot (URI_file ''/dev/new'') example_granted) =
     ToDisposable (URI_file ''/dev/new'') False \<and>
   [''app''] \<in> set (bootstrapKeys example_externals example_environment) \<and>
   [''app''] \<notin> set (windowKeys 1 example_granted) \<and>
   entries (validRoots (onDidCloseOrDestroy 1 example_granted)) [''app''] = Some True \<and>
   entries (snd (dispose (ToDisposable (URI_file ''/dev/ext'') False) (validRoots example_granted)))
     [''app''] = Some True \<and>
   (2::nat) \<noteq> 1 \<and>
   set (windowKeys 2 example_granted) \<inter> set (windowKeys 1 example_granted) = {}"
proof -
  have r: "example_granted =
      run example_externals [SignalReadyWindow (example_window 1 ''/dev/ext'')]
        (constructor_FileProtocolHandler example_externals example_environment)"
    by (simp only: example_granted_def example_handler_def)
  have a: "get_tst (validRoots example_granted) (URI_file ''/dev/ext'') = Some True"
    unfolding example_granted_roots
    by (simp add: get_tst_def uriKey_def URI_file_def pathSegments_def)
  have b: "get_tst (validRoots example_granted) (URI_file ''/dev/new'') = None"
    unfolding example_granted_roots
    by (simp add: get_tst_def uriKey_def URI_file_def pathSegments_def)
  have c: "[''app''] \<in> set (bootstrapKeys example_externals example_environment)"
    by (simp add: bootstrapKeys_def example_externals_def example_environment_def forUris_def
        uriKey_def URI_file_def pathSegments_def)
  have d: "[''app''] \<notin> set (windowKeys 1 example_granted)"
    unfolding windowKeys_def storeKeys_def example_granted_windows example_granted_roots
    by (simp add: uriKey_def URI_file_def pathSegments_def)
  note t = revocation_removes_only_its_own_root [OF r]
  from t [of "URI_file ''/dev/ext''"] a
  have 1: "addValidRoot (URI_file ''/dev/ext'') example_granted = (Disposable_None, example_granted)"
    by blast
  from t [of "URI_file ''/dev/new''"] b
  have 2: "fst (addValidRoot (URI_file ''/dev/new'') example_granted) =
      ToDisposable (URI_file ''/dev/new'') False"
    by simp
  from t [of "URI_file ''/dev/ext''" _ _ 1] c d
  have 3: "entries (validRoots (onDidCloseOrDestroy 1 example_granted)) [''app''] = Some True"
    by metis
  have e: "[''app''] \<noteq> uriKey (validRoots example_granted) (URI_file ''/dev/ext'')"
    unfolding example_granted_roots by (simp add: uriKey_def URI_file_def pathSegments_def)
  from t [of "URI_file ''/dev/ext''" "validRoots example_granted" False] c e
  have 4: "entries (snd (dispose (ToDisposable (URI_file ''/dev/ext'') False)
      (validRoots example_granted))) [''app''] = Some True"
    by metis
  have n: "(2::nat) \<noteq> 1"
    by simp
  from t [of "URI_file ''/dev/ext''" _ _ 1] n
  have 5: "set (windowKeys 2 example_granted) \<inter> set (windowKeys 1 example_granted) = {}"
    by blast
  from a b c d 1 2 3 4 5 n show ?thesis by blast
qed

theorem revoke_twice_is_revoke_once_witness:
  "dispose (ToDisposable (URI_file ''/a/b'') False) example_store =
     (ToDisposable (URI_file ''/a/b'') True, delete_tst (URI_file ''/a/b'') example_store) \<and>
   dispose (ToDisposable (URI_file ''/a/b'') True) (delete_tst (URI_file ''/a/b'') example_store) =
     (ToDisposable (URI_file ''/a/b'') True, delete_tst (URI_file ''/a/b'') example_store) \<and>
   get_tst (delete_tst (URI_file ''/a/b'') example_store) (URI_file ''/a/b'') = None \<and>
   get_tst (snd (dispose (ToDisposable (URI_file ''/a/b'') True)
     (set_tst (URI_file ''/a/b'') True (delete_tst (URI_file ''/a/b'') example_store))))
     (URI_file ''/a/b'') = Some True"
proof -
  have d: "dispose (ToDisposable (URI_file ''/a/b'') False) example_store =
     (ToDisposable (URI_file ''/a/b'') True, delete_tst (URI_file ''/a/b'') example_store)"
    by simp
  from revoke_twice_is_revoke_once [OF d] d show ?thesis
    by blast
qed

theorem added_root_lives_until_first_terminal_signal_witness:
  "URI_file ''/dev/ext'' \<in> set (windowRoots (example_window 1 ''/dev/ext'')) \<and>
   get_tst (validRoots example_handler) (URI_file ''/dev/ext'') = None \<and>
   \<not> terminalFor 1 (WindowClose 2) \<and>
   get_tst (validRoots example_granted) (URI_file ''/dev/ext'') = Some True \<and>
   get_tst (validRoots (run example_externals example_events example_granted))
     (URI_file ''/dev/ext'') = Some True \<and>
   get_tst (validRoots (step example_externals (WindowClose 1)
     (run example_externals example_events example_granted))) (URI_file ''/dev/ext'') = None"
proof -
  have r: "example_handler =
      run example_externals [] (constructor_FileProtocolHandler example_externals example_environment)"
    by (simp only: example_handler_def run.simps)
  have a: "URI_file ''/dev/ext'' \<in> set (windowRoots (example_window 1 ''/dev/ext''))"
    by (simp add: windowRoots_def example_window_def reportedRoots_def)
  have b: "get_tst (validRoots example_handler) (URI_file ''/dev/ext'') = None"
    unfolding example_handler_roots
    by (simp add: get_tst_def uriKey_def URI_file_def pathSegments_def)
  have c: "\<forall>e \<in> set example_events. \<not> terminalFor (windowId (example_window 1 ''/dev/ext'')) e"
    by (simp add: example_events_def terminalFor_def example_window_def)
  have d: "\<not> terminalFor 1 (WindowClose 2)"
    by (simp add: terminalFor_def)
  have g: "onDidSignalReadyWindow (example_window 1 ''/dev/ext'') example_handler = example_granted"
    by (simp add: example_granted_def)
  have w: "windowId (example_window 1 ''/dev/ext'') = 1"
    by (simp add: example_window_def)
  from added_root_lives_until_first_terminal_signal
    [OF r a, of example_events example_granted] b c
  have "get_tst (validRoots example_granted) (URI_file ''/dev/ext'') = Some True \<and>
      get_tst (validRoots (run example_externals example_events example_granted))
        (URI_file ''/dev/ext'') = Some True \<and>
      get_tst (validRoots (step example_externals (WindowClose 1)
        (run example_externals example_events example_granted))) (URI_file ''/dev/ext'') = None"
    unfolding g w by simp
  with a b d show ?thesis by blast
qed

end
